theory Spec2Isabelle
  imports Main "HOL-Library.AList"
begin

section \<open>Values of the host language\<close>

text \<open>
  The route-group builder (\<^verbatim>\<open>src/index.js\<close>) is written in JavaScript and decides most of
  its behaviour by inspecting the run-time shape of its arguments (\<^verbatim>\<open>typeof\<close>,
  \<^verbatim>\<open>Array.isArray\<close>, \<^verbatim>\<open>instanceof Group\<close>, \<^verbatim>\<open>== null\<close>). The embedding therefore works
  over one type of dynamic values.

  \<^item> \<open>JNum\<close> covers the integral numbers only; \<open>JStr\<close> holds strings of 8-bit code units.
  \<^item> \<open>JFun n src\<close> is a function object: \<open>n\<close> is its identity and \<open>src\<close> the text that
    converting it to a string yields. Functions carry no further own properties.
  \<^item> \<open>JObj ps\<close> is a plain data object; \<open>ps\<close> lists its own properties in property order.
    Its properties are read, never invoked.
  \<^item> \<open>JGroup a\<close> is a reference to an instance of \<^verbatim>\<open>Group\<close>: \<open>a\<close> is the address of the
    instance in the store below.
\<close>

datatype jsval =
    JUndefined
  | JNull
  | JBool bool
  | JNum int
  | JStr string
  | JFun nat string
  | JArr "jsval list"
  | JObj "(string \<times> jsval) list"
  | JGroup nat

text \<open>
  The state of one instance of \<^verbatim>\<open>Group\<close> (lines 23--36): \<^verbatim>\<open>this.catchers\<close>,
  \<^verbatim>\<open>this.middlewares.after\<close>, \<^verbatim>\<open>this.middlewares.before\<close> and \<^verbatim>\<open>this.items\<close>. The
  property \<^verbatim>\<open>Promise\<close>, a reference to an external class that no method reads, is left
  out.
\<close>

datatype group =
  Group (catchers: "jsval list") (middlewares_after: "jsval list")
        (middlewares_before: "jsval list") (items: "jsval list")

text \<open>
  The groups are the objects that the builder mutates, and a group item refers to its
  subgroup, it does not copy it. So the groups live in a store, a map from addresses to
  group states: a builder operation takes the store and the address of its receiver and
  returns the store it leaves (the source returns \<^verbatim>\<open>this\<close>, the address the caller
  already holds), and whoever holds the address of a group sees every later change of it.
  Every address holds a group, so a reference never dangles. Arrays and plain objects
  other than the four lists of a group are never changed by the program once it holds
  them, and stay values.
\<close>

type_synonym store = "nat \<Rightarrow> group"

text \<open>
  Modelled from the spec: the two error classes that line 40 and line 41 load from
  \<^verbatim>\<open>./invalid-catch-error\<close> and \<^verbatim>\<open>./invalid-handler-specification-error\<close>, files that
  are not among the sources. Each is a distinct, identifiable kind of failure carrying the
  value handed to its constructor. \<open>TypeError\<close>, \<open>ReferenceError\<close> and \<open>Error\<close> are the
  built-in errors of the language, with their message.
\<close>

datatype error =
    InvalidCatchError jsval
  | InvalidHandlerSpecificationError jsval
  | TypeError string
  | ReferenceError string
  | Error string

subsection \<open>Primitive operations of the language\<close>

definition typeof :: "jsval \<Rightarrow> string" where
  "typeof v = (case v of
       JUndefined \<Rightarrow> ''undefined''
     | JNull \<Rightarrow> ''object''
     | JBool _ \<Rightarrow> ''boolean''
     | JNum _ \<Rightarrow> ''number''
     | JStr _ \<Rightarrow> ''string''
     | JFun _ _ \<Rightarrow> ''function''
     | JArr _ \<Rightarrow> ''object''
     | JObj _ \<Rightarrow> ''object''
     | JGroup _ \<Rightarrow> ''object'')"

text \<open>\<^verbatim>\<open>v == null\<close>: true of \<^verbatim>\<open>null\<close> and \<^verbatim>\<open>undefined\<close> only.\<close>

definition eq_null :: "jsval \<Rightarrow> bool" where
  "eq_null v = (v = JUndefined \<or> v = JNull)"

definition isArray :: "jsval \<Rightarrow> bool" where
  "isArray v = (case v of JArr _ \<Rightarrow> True | _ \<Rightarrow> False)"

definition instanceof_Group :: "jsval \<Rightarrow> bool" where
  "instanceof_Group v = (case v of JGroup _ \<Rightarrow> True | _ \<Rightarrow> False)"

text \<open>Truthiness, as \<^verbatim>\<open>||\<close> tests it.\<close>

definition truthy :: "jsval \<Rightarrow> bool" where
  "truthy v = (case v of
       JUndefined \<Rightarrow> False
     | JNull \<Rightarrow> False
     | JBool b \<Rightarrow> b
     | JNum n \<Rightarrow> n \<noteq> 0
     | JStr s \<Rightarrow> s \<noteq> []
     | _ \<Rightarrow> True)"

definition or_else :: "jsval \<Rightarrow> jsval \<Rightarrow> jsval" where
  "or_else a b = (if truthy a then a else b)"

text \<open>Decimal notation of a number, as string conversion and template literals print it.\<close>

definition digit :: "nat \<Rightarrow> char" where
  "digit d = char_of (of_char CHR ''0'' + d)"

fun decimal :: "nat \<Rightarrow> string" where
  "decimal n = (if n < 10 then [digit n] else decimal (n div 10) @ [digit (n mod 10)])"

declare decimal.simps [simp del]

definition int_text :: "int \<Rightarrow> string" where
  "int_text i = (if i < 0 then CHR ''-'' # decimal (nat (- i)) else decimal (nat i))"

fun join_comma :: "string list \<Rightarrow> string" where
  "join_comma [] = []"
| "join_comma [s] = s"
| "join_comma (s # t # rest) = s @ '','' @ join_comma (t # rest)"

text \<open>
  String conversion (\<^verbatim>\<open>`${v}`\<close>). An array is joined with commas, its \<^verbatim>\<open>null\<close> and
  \<^verbatim>\<open>undefined\<close> elements printing as the empty string; a plain object and a group print
  as \<^verbatim>\<open>[object Object]\<close>.
\<close>

fun to_string :: "jsval \<Rightarrow> string" where
  "to_string JUndefined = ''undefined''"
| "to_string JNull = ''null''"
| "to_string (JBool b) = (if b then ''true'' else ''false'')"
| "to_string (JNum i) = int_text i"
| "to_string (JStr s) = s"
| "to_string (JFun n src) = src"
| "to_string (JArr xs) =
     join_comma (map (\<lambda>x. if eq_null x then [] else to_string x) xs)"
| "to_string (JObj ps) = ''[object Object]''"
| "to_string (JGroup a) = ''[object Object]''"


definition quoted :: "string \<Rightarrow> string" where
  "quoted s = CHR 0x27 # s @ [CHR 0x27]"

text \<open>
  Reading a property of a value the program was handed, \<^verbatim>\<open>v.k\<close>. Reading from \<^verbatim>\<open>null\<close>
  or \<^verbatim>\<open>undefined\<close> raises; a plain object answers from its own properties; every other
  value answers \<^verbatim>\<open>undefined\<close>. This is exact for the reads the program makes this way:
  it reads \<^verbatim>\<open>type\<close>, \<^verbatim>\<open>path\<close>, \<^verbatim>\<open>handlers\<close> and \<^verbatim>\<open>respondsTo\<close>, which no array,
  string, function or group has and no prototype defines, and it reads \<^verbatim>\<open>group\<close> and
  \<^verbatim>\<open>collectRoutes\<close> only where the value cannot be a group (from a value whose \<^verbatim>\<open>type\<close>
  is the string \<^verbatim>\<open>"group"\<close>, and after the test for a group). The lists of a group are
  read from the store, never through this function.
\<close>

definition get_prop :: "jsval \<Rightarrow> string \<Rightarrow> error + jsval" where
  "get_prop v k = (case v of
       JUndefined \<Rightarrow>
         Inl (TypeError (''Cannot read properties of undefined (reading '' @ quoted k @ '')''))
     | JNull \<Rightarrow>
         Inl (TypeError (''Cannot read properties of null (reading '' @ quoted k @ '')''))
     | JObj ps \<Rightarrow> Inr (case map_of ps k of Some x \<Rightarrow> x | None \<Rightarrow> JUndefined)
     | _ \<Rightarrow> Inr JUndefined)"

text \<open>
  The own enumerable properties that an object spread \<^verbatim>\<open>{...v}\<close> copies, in order.
  \<^verbatim>\<open>null\<close>, \<^verbatim>\<open>undefined\<close>, numbers, booleans and functions contribute nothing; arrays
  and strings contribute their indexed elements. The program spreads a value only when
  its \<^verbatim>\<open>type\<close> is the string \<^verbatim>\<open>"route"\<close> or when it is a route it has built itself, so
  a group is never spread.
\<close>

definition own_props :: "jsval \<Rightarrow> (string \<times> jsval) list" where
  "own_props v = (case v of
       JObj ps \<Rightarrow> ps
     | JArr xs \<Rightarrow> zip (map decimal [0 ..< length xs]) xs
     | JStr s \<Rightarrow> zip (map decimal [0 ..< length s]) (map (\<lambda>c. JStr [c]) s)
     | _ \<Rightarrow> [])"

text \<open>
  The elements an array spread \<^verbatim>\<open>[...v]\<close> iterates over. Arrays and strings are the
  iterable values; everything else raises.
\<close>

definition spread :: "string \<Rightarrow> jsval \<Rightarrow> error + jsval list" where
  "spread what v = (case v of
       JArr xs \<Rightarrow> Inr xs
     | JStr s \<Rightarrow> Inr (map (\<lambda>c. JStr [c]) s)
     | _ \<Rightarrow> Inl (TypeError (what @ '' is not iterable'')))"

text \<open>\<^verbatim>\<open>xs.indexOf(x)\<close> on a sequence: the first position holding \<open>x\<close>, or \<open>-1\<close>.\<close>

fun index_from :: "'a \<Rightarrow> 'a list \<Rightarrow> nat \<Rightarrow> int" where
  "index_from x [] i = - 1"
| "index_from x (y # ys) i = (if y = x then int i else index_from x ys (Suc i))"

text \<open>
  \<^verbatim>\<open>path.indexOf("/")\<close>. Strings and arrays have the method (an array compares its
  elements with \<^verbatim>\<open>===\<close>); on every other value the call raises.
\<close>

definition indexOf_slash :: "jsval \<Rightarrow> error + int" where
  "indexOf_slash path = (case path of
       JStr s \<Rightarrow> Inr (index_from CHR ''/'' s 0)
     | JArr xs \<Rightarrow> Inr (index_from (JStr ''/'') xs 0)
     | _ \<Rightarrow> Inl (TypeError ''path.indexOf is not a function''))"

text \<open>
  \<^verbatim>\<open>s.trim()\<close> removes white space and line terminators at both ends: among the 8-bit
  code units these are TAB, LF, VT, FF, CR, SP and NBSP.
\<close>

definition is_space :: "char \<Rightarrow> bool" where
  "is_space c = (c \<in> set [CHR 0x09, CHR 0x0A, CHR 0x0B, CHR 0x0C, CHR 0x0D, CHR 0x20, CHR 0xA0])"

definition trim :: "string \<Rightarrow> string" where
  "trim s = rev (dropWhile is_space (rev (dropWhile is_space s)))"

section \<open>The builder\<close>

text \<open>
  The embedding covers the constructor without a callback, \<^verbatim>\<open>addGroup\<close>,
  \<^verbatim>\<open>addHandlers\<close>, \<^verbatim>\<open>after\<close>, \<^verbatim>\<open>before\<close>, \<^verbatim>\<open>catch\<close> and \<^verbatim>\<open>collectRoutes\<close>, each read as
  it is written. The methods \<^verbatim>\<open>addHandler\<close>, \<^verbatim>\<open>around\<close> and \<^verbatim>\<open>group\<close> are left out, and
  so are the verb shortcuts of lines 210--240, whose \<^verbatim>\<open>return\<close> statements end in a comma
  and do not parse.
\<close>

text \<open>
  \<^verbatim>\<open>Group.errors\<close> (lines 38--44): the table of error classes. It has exactly two
  entries. \<^verbatim>\<open>throw new Group.errors.K(arg)\<close> looks \<open>K\<close> up in it; a name the table
  lacks evaluates to \<^verbatim>\<open>undefined\<close>, and \<^verbatim>\<open>new undefined(arg)\<close> raises a \<open>TypeError\<close>.
\<close>

definition Group_errors :: "(string \<times> (jsval \<Rightarrow> error)) list" where
  "Group_errors =
     [(''InvalidCatchError'', InvalidCatchError),
      (''InvalidHandlerSpecificationError'', InvalidHandlerSpecificationError)]"

definition throw_new :: "string \<Rightarrow> jsval \<Rightarrow> error + 'a" where
  "throw_new k arg = (case map_of Group_errors k of
       Some mk \<Rightarrow> Inl (mk arg)
     | None \<Rightarrow> Inl (TypeError (''Group.errors.'' @ k @ '' is not a constructor'')))"

text \<open>
  \<^verbatim>\<open>new Group()\<close> (lines 23--36, without a callback): the state of the new instance, all
  four lists empty.
\<close>

definition Group_new :: group where
  "Group_new = Group [] [] [] []"

text \<open>
  The four in-place updates that the builder performs, on the state of a group; \<open>modify\<close>
  applies one to the group at an address of the store.
\<close>

definition push_item :: "group \<Rightarrow> jsval \<Rightarrow> group" where
  "push_item this x =
     Group (catchers this) (middlewares_after this) (middlewares_before this) (items this @ [x])"

definition push_after :: "group \<Rightarrow> jsval \<Rightarrow> group" where
  "push_after this x =
     Group (catchers this) (middlewares_after this @ [x]) (middlewares_before this) (items this)"

definition unshift_before :: "group \<Rightarrow> jsval \<Rightarrow> group" where
  "unshift_before this x =
     Group (catchers this) (middlewares_after this) (x # middlewares_before this) (items this)"

definition push_catcher :: "group \<Rightarrow> jsval \<Rightarrow> group" where
  "push_catcher this x =
     Group (catchers this @ [x]) (middlewares_after this) (middlewares_before this) (items this)"

definition modify :: "store \<Rightarrow> nat \<Rightarrow> (group \<Rightarrow> group) \<Rightarrow> store" where
  "modify s a f = s(a := f (s a))"

subsection \<open>addGroup (lines 48--65)\<close>

text \<open>
  The item holds \<^verbatim>\<open>group\<close> as it was passed: for a group, the reference. Nothing is
  required of it, not even that it is a group or another one than the receiver.
\<close>

function addGroup :: "store \<Rightarrow> nat \<Rightarrow> jsval \<Rightarrow> jsval \<Rightarrow> error + store" where
  "addGroup s this path grp =
     (if instanceof_Group path \<and> eq_null grp then addGroup s this JNull path
      else if eq_null path then
        Inr (modify s this (\<lambda>g. push_item g
               (JObj [(''type'', JStr ''group''), (''path'', path), (''group'', grp)])))
      else (case indexOf_slash path of
          Inl e \<Rightarrow> Inl e
        | Inr i \<Rightarrow>
            if i \<noteq> 0 then
              throw_new ''InvalidHandlerSpecificationError''
                (JStr ''path must either be null or start with /'')
            else
              Inr (modify s this (\<lambda>g. push_item g
                     (JObj [(''type'', JStr ''group''), (''path'', path), (''group'', grp)])))))"
  by pat_completeness auto
termination
  by (relation "measure (\<lambda>(s, this, path, grp). if instanceof_Group path then 1 else 0)")
     (auto simp: instanceof_Group_def)

declare addGroup.simps [simp del]

subsection \<open>addHandlers (lines 72--129)\<close>

text \<open>Lines 89--93: every method must be a string that is not blank.\<close>

fun check_methods :: "jsval list \<Rightarrow> error + unit" where
  "check_methods [] = Inr ()"
| "check_methods (method # rest) =
     (if typeof method \<noteq> ''string'' \<or> length (trim (to_string method)) = 0 then
        throw_new ''InvalidMethodError'' method
      else check_methods rest)"

text \<open>
  Lines 107--115: the loop inside the mapping function. Its loop variable shadows the
  element being mapped, and it runs over \<^verbatim>\<open>handlers\<close>, the list as it was passed in.
\<close>

fun check_handlers :: "jsval list \<Rightarrow> error + unit" where
  "check_handlers [] = Inr ()"
| "check_handlers (handler # rest) =
     (if instanceof_Group handler then throw_new ''HandlerCannotBeGroupError'' handler
      else (case get_prop handler ''respondsTo'' of
          Inl e \<Rightarrow> Inl e
        | Inr r \<Rightarrow>
            if r \<noteq> JStr ''then'' \<and> r \<noteq> JStr ''catch'' then
              throw_new ''InvalidHandlerSpecificationError''
                (JStr (''Invalid handler respondsTo: '' @ quoted (to_string r)))
            else check_handlers rest))"

text \<open>
  Lines 99--118: \<^verbatim>\<open>handlers.map(handler => ...)\<close>. The first argument is the list the
  inner loop reads, the second the elements still to be mapped.
\<close>

fun map_handlers :: "jsval list \<Rightarrow> jsval list \<Rightarrow> error + jsval list" where
  "map_handlers handlers [] = Inr []"
| "map_handlers handlers (handler # rest) =
     (let handler' =
        (if typeof handler = ''function'' then
           JObj [(''name'', JNull), (''respondsTo'', JStr ''then''), (''callback'', handler)]
         else handler)
      in case check_handlers handlers of
          Inl e \<Rightarrow> Inl e
        | Inr _ \<Rightarrow> (case map_handlers handlers rest of
              Inl e \<Rightarrow> Inl e
            | Inr hs \<Rightarrow> Inr (handler' # hs)))"

text \<open>
  The last argument is the rest parameter \<^verbatim>\<open>...handlers\<close>, always an array. When
  \<^verbatim>\<open>methods\<close> is not an array the function calls itself (lines 75 and 77), passing the
  array \<^verbatim>\<open>handlers\<close> as one argument.
\<close>

function addHandlers :: "store \<Rightarrow> nat \<Rightarrow> jsval \<Rightarrow> jsval \<Rightarrow> jsval list \<Rightarrow> error + store" where
  "addHandlers s this methods path handlers =
     (case methods of
        JArr ms \<Rightarrow>
          if typeof path \<noteq> ''string'' \<or> indexOf_slash path \<noteq> Inr 0 then
            throw_new ''InvalidPathError'' path
          else if length ms = 0 then
            throw_new ''InvalidMethodsError'' methods
          else (case check_methods ms of
              Inl e \<Rightarrow> Inl e
            | Inr _ \<Rightarrow>
                if length handlers = 0 then
                  throw_new ''InvalidHandlersError'' (JArr handlers)
                else (case map_handlers handlers handlers of
                    Inl e \<Rightarrow> Inl e
                  | Inr handlers' \<Rightarrow>
                      Inr (modify s this (\<lambda>g. push_item g
                            (JObj [(''type'', JStr ''handler''), (''methods'', methods),
                                   (''path'', path), (''handlers'', JArr handlers')])))))
      | _ \<Rightarrow>
          if eq_null methods then addHandlers s this (JArr []) path [JArr handlers]
          else addHandlers s this (JArr [methods]) path [JArr handlers])"
  by pat_completeness auto
termination
  by (relation "measure (\<lambda>(s, this, methods, path, handlers). if isArray methods then 0 else 1)")
     (auto simp: isArray_def)

declare addHandlers.simps [simp del]

subsection \<open>after, before, catch (lines 134--168)\<close>

definition after :: "store \<Rightarrow> nat \<Rightarrow> jsval \<Rightarrow> store" where
  "after s this middleware = modify s this (\<lambda>g. push_after g middleware)"

definition before :: "store \<Rightarrow> nat \<Rightarrow> jsval \<Rightarrow> store" where
  "before s this middleware = modify s this (\<lambda>g. unshift_before g middleware)"

text \<open>
  Line 165 pushes the value of the identifier \<^verbatim>\<open>handler\<close>. The identifiers in scope in
  the body of \<^verbatim>\<open>catch\<close> are its parameter \<^verbatim>\<open>callback\<close> and the module's \<^verbatim>\<open>Group\<close>;
  reading an identifier that no scope binds raises a \<open>ReferenceError\<close>.
\<close>

definition catch_scope :: "jsval \<Rightarrow> (string \<times> jsval) list" where
  "catch_scope callback = [(''callback'', callback)]"

definition resolve :: "(string \<times> jsval) list \<Rightarrow> string \<Rightarrow> error + jsval" where
  "resolve scope x = (case map_of scope x of
       Some v \<Rightarrow> Inr v
     | None \<Rightarrow> Inl (ReferenceError (x @ '' is not defined'')))"

definition catch :: "store \<Rightarrow> nat \<Rightarrow> jsval \<Rightarrow> error + store" where
  "catch s this callback =
     (if typeof callback \<noteq> ''function'' then
        throw_new ''InvalidCatchError'' (JStr (typeof callback))
      else (case resolve (catch_scope callback) ''handler'' of
          Inl e \<Rightarrow> Inl e
        | Inr v \<Rightarrow> Inr (modify s this (\<lambda>g. push_catcher g v))))"

section \<open>The route collector (lines 172--208)\<close>

text \<open>Lines 182--186: each catcher becomes a handler object named after its index.\<close>

definition catcher_handlers :: "jsval list \<Rightarrow> jsval list" where
  "catcher_handlers cs =
     map (\<lambda>(i, catcher).
            JObj [(''name'', JStr (''GroupCatcher_'' @ decimal i)),
                  (''respondsTo'', JStr ''catch''),
                  (''callback'', catcher)])
         (enumerate 0 cs)"

text \<open>
  Lines 174--189. The first argument is the state of \<^verbatim>\<open>this\<close> at the moment of the call.
  \<^verbatim>\<open>routes\<close> is the local array of the invocation; the push is modelled by returning the
  extended array. The new route copies the properties of \<^verbatim>\<open>route\<close> and sets
  \<^verbatim>\<open>handlers\<close>: in place when \<^verbatim>\<open>route\<close> has the property, at the end otherwise.
\<close>

definition appendToRoutes :: "group \<Rightarrow> jsval list \<Rightarrow> jsval \<Rightarrow> error + jsval list" where
  "appendToRoutes this routes route =
     (case get_prop route ''handlers'' of
        Inl e \<Rightarrow> Inl e
      | Inr h \<Rightarrow> (case spread ''route.handlers'' h of
            Inl e \<Rightarrow> Inl e
          | Inr hs \<Rightarrow>
              Inr (routes @
                [JObj (AList.update ''handlers''
                         (JArr (middlewares_before this @ hs @ middlewares_after this @
                                catcher_handlers (catchers this)))
                         (own_props route))])))"

text \<open>
  Lines 193--199: the loop over the array of routes that a subgroup returned. The array
  is new and no call is made inside the loop, so the loop runs over the list.
\<close>

fun appendSubRoutes :: "group \<Rightarrow> jsval \<Rightarrow> jsval list \<Rightarrow> jsval list \<Rightarrow> error + jsval list" where
  "appendSubRoutes this item [] routes = Inr routes"
| "appendSubRoutes this item (subRoute # rest) routes =
     (case get_prop item ''path'' of
        Inl e \<Rightarrow> Inl e
      | Inr ip \<Rightarrow> (case get_prop subRoute ''path'' of
            Inl e \<Rightarrow> Inl e
          | Inr sp \<Rightarrow>
              (case appendToRoutes this routes
                      (JObj (AList.update ''path''
                               (JStr (to_string (or_else ip (JStr [])) @ to_string sp))
                               (own_props subRoute))) of
                 Inl e \<Rightarrow> Inl e
               | Inr routes' \<Rightarrow> appendSubRoutes this item rest routes')))"

text \<open>
  \<open>collectRoutes\<close> is the method, \<open>collectItems\<close> its loop over \<^verbatim>\<open>this.items\<close> (line
  191), at position \<open>i\<close> of the array and with the routes pushed so far, and \<open>collectItem\<close>
  the body of the loop (lines 192--204) for one item: it returns the routes pushed so far
  and by this item.

  The method calls itself on the subgroups, and nothing keeps a group from being reachable
  from itself, so the recursion need not end. The first argument bounds the work: every
  call of the method and every turn of the loop takes one unit, and the result is \<open>None\<close>
  when the bound is used up. An invocation returns when some bound gives \<open>Some\<close>; it runs
  forever when every bound gives \<open>None\<close>.

  A result \<open>Some (r, s')\<close> holds what the invocation returns or raises and the store as it
  leaves it. The store is threaded through the body: each turn of the loop reads the
  array \<^verbatim>\<open>this.items\<close>, its length and the middleware of \<^verbatim>\<open>this\<close> from the store as the
  turns and calls before it have left it.
\<close>

function collectRoutes :: "nat \<Rightarrow> store \<Rightarrow> nat \<Rightarrow> ((error + jsval list) \<times> store) option"
  and collectItems ::
    "nat \<Rightarrow> store \<Rightarrow> nat \<Rightarrow> nat \<Rightarrow> jsval list \<Rightarrow> ((error + jsval list) \<times> store) option"
  and collectItem ::
    "nat \<Rightarrow> store \<Rightarrow> nat \<Rightarrow> jsval \<Rightarrow> jsval list \<Rightarrow> ((error + jsval list) \<times> store) option"
  where
  "collectRoutes 0 s this = None"
| "collectRoutes (Suc n) s this = collectItems n s this 0 []"
| "collectItems 0 s this i routes = None"
| "collectItems (Suc n) s this i routes =
     (if i < length (items (s this)) then
        (case collectItem n s this (items (s this) ! i) routes of
           None \<Rightarrow> None
         | Some (Inl e, s') \<Rightarrow> Some (Inl e, s')
         | Some (Inr routes', s') \<Rightarrow> collectItems n s' this (Suc i) routes')
      else Some (Inr routes, s))"
| "collectItem n s this item routes =
     (case get_prop item ''type'' of
        Inl e \<Rightarrow> Some (Inl e, s)
      | Inr ty \<Rightarrow>
          if ty = JStr ''group'' then
            (case get_prop item ''group'' of
               Inl e \<Rightarrow> Some (Inl e, s)
             | Inr g \<Rightarrow> (case g of
                   JGroup sub \<Rightarrow> (case collectRoutes n s sub of
                       None \<Rightarrow> None
                     | Some (Inl e, s') \<Rightarrow> Some (Inl e, s')
                     | Some (Inr subRoutes, s') \<Rightarrow>
                         (case appendSubRoutes (s' this) item subRoutes routes of
                            Inl e \<Rightarrow> Some (Inl e, s')
                          | Inr routes' \<Rightarrow> Some (Inr routes', s')))
                 | _ \<Rightarrow> (case get_prop g ''collectRoutes'' of
                       Inl e \<Rightarrow> Some (Inl e, s)
                     | Inr _ \<Rightarrow>
                         Some (Inl (TypeError ''item.group.collectRoutes is not a function''),
                               s))))
          else if ty = JStr ''route'' then
            (case appendToRoutes (s this) routes item of
               Inl e \<Rightarrow> Some (Inl e, s)
             | Inr routes' \<Rightarrow> Some (Inr routes', s))
          else Some (Inl (Error (''Bad type: '' @ quoted (to_string ty))), s))"
  by pat_completeness auto
termination
  by (relation "measure (\<lambda>x. case x of
                    Inl (n, s, this) \<Rightarrow> 3 * n
                  | Inr (Inl (n, s, this, i, routes)) \<Rightarrow> 3 * n + 2
                  | Inr (Inr (n, s, this, item, routes)) \<Rightarrow> 3 * n + 1)")
     auto

declare collectItem.simps [simp del]

section \<open>Auxiliary facts\<close>

subsection \<open>Objects and catchers\<close>

lemma get_prop_update_same:
  "get_prop (JObj (AList.update k v ps)) k = Inr v"
  by (simp add: get_prop_def update_conv')

lemma get_prop_update_other:
  "k' \<noteq> k \<Longrightarrow> get_prop (JObj (AList.update k v ps)) k' = get_prop (JObj ps) k'"
  by (simp add: get_prop_def update_conv')

lemma length_catcher_handlers:
  "length (catcher_handlers cs) = length cs"
  by (simp add: catcher_handlers_def)

lemma nth_catcher_handlers:
  "i < length cs \<Longrightarrow>
   catcher_handlers cs ! i =
     JObj [(''name'', JStr (''GroupCatcher_'' @ decimal i)),
           (''respondsTo'', JStr ''catch''),
           (''callback'', cs ! i)]"
  by (simp add: catcher_handlers_def nth_enumerate_eq)


subsection \<open>Wrapping a route\<close>

text \<open>
  A successful \<open>appendToRoutes\<close> pushes exactly one route. It reads the group only through
  its two middleware lists and its catchers.
\<close>

lemma appendToRoutes_Inr:
  assumes "appendToRoutes this routes route = Inr routes'"
  obtains h hs where "get_prop route ''handlers'' = Inr h"
    and "spread ''route.handlers'' h = Inr hs"
    and "routes' = routes @
           [JObj (AList.update ''handlers''
                   (JArr (middlewares_before this @ hs @ middlewares_after this @
                          catcher_handlers (catchers this)))
                   (own_props route))]"
  using assms by (auto simp: appendToRoutes_def split: sum.splits)

lemma appendToRoutes_any_acc:
  "appendToRoutes this routes route = Inr (routes @ [r]) \<Longrightarrow>
   appendToRoutes this acc route = Inr (acc @ [r])"
  by (auto simp: appendToRoutes_def split: sum.splits)

lemma wrapped_handlers:
  assumes "appendToRoutes G routes route = Inr (routes @ [r])"
  shows "\<exists>h hs. get_prop route ''handlers'' = Inr h \<and>
           spread ''route.handlers'' h = Inr hs \<and>
           get_prop r ''handlers'' =
             Inr (JArr (middlewares_before G @ hs @ middlewares_after G @
                        catcher_handlers (catchers G)))"
  using assms by (auto elim!: appendToRoutes_Inr simp: get_prop_update_same)

lemma appendSubRoutes_out:
  "appendSubRoutes this item subs acc = Inr rs \<Longrightarrow>
   \<exists>new. rs = acc @ new \<and> length new = length subs \<and>
     (\<forall>r \<in> set new. \<exists>route. appendToRoutes this [] route = Inr [r])"
proof (induction subs arbitrary: acc rs)
  case Nil
  then show ?case by simp
next
  case (Cons sr subs)
  from Cons.prems obtain ip sp acc' where
    acc': "appendToRoutes this acc
             (JObj (AList.update ''path''
                      (JStr (to_string (or_else ip (JStr [])) @ to_string sp))
                      (own_props sr))) = Inr acc'"
    and rest: "appendSubRoutes this item subs acc' = Inr rs"
    by (auto split: sum.splits)
  from acc' obtain r where r: "acc' = acc @ [r]"
    by (auto elim: appendToRoutes_Inr)
  from acc' r have wr: "\<exists>route. appendToRoutes this [] route = Inr [r]"
    using appendToRoutes_any_acc [of this acc _ r "[]"] by auto
  from Cons.IH [OF rest] obtain new where
    new: "rs = acc' @ new" "length new = length subs"
      "\<forall>r \<in> set new. \<exists>route. appendToRoutes this [] route = Inr [r]"
    by blast
  show ?case
    by (rule exI [of _ "r # new"]) (use r wr new in auto)
qed

lemma appendToRoutes_cong:
  assumes "middlewares_before a = middlewares_before b"
    and "middlewares_after a = middlewares_after b"
    and "catchers a = catchers b"
  shows "appendToRoutes a routes route = appendToRoutes b routes route"
  unfolding appendToRoutes_def assms by (rule refl)

lemma appendSubRoutes_cong:
  assumes "middlewares_before a = middlewares_before b"
    and "middlewares_after a = middlewares_after b"
    and "catchers a = catchers b"
  shows "appendSubRoutes a item subs acc = appendSubRoutes b item subs acc"
proof (induction subs arbitrary: acc)
  case Nil
  show ?case by simp
next
  case (Cons sr subs)
  show ?case
    by (simp add: Cons.IH appendToRoutes_cong [OF assms] split: sum.splits)
qed


text \<open>
  Re-wrapping routes that carry an array of handlers cannot fail. Their paths get the
  prefix of the group item, their handlers the layer of the enclosing group.
\<close>

lemma appendSubRoutes_ok:
  assumes "\<forall>sr \<in> set subs. \<exists>ps hs. sr = JObj ps \<and> map_of ps ''handlers'' = Some (JArr hs)"
    and "get_prop item ''path'' = Inr ip"
  shows "\<exists>new. appendSubRoutes this item subs acc = Inr (acc @ new) \<and>
           length new = length subs \<and>
           (\<forall>k < length subs.
              (\<forall>sp. get_prop (subs ! k) ''path'' = Inr sp \<longrightarrow>
                 get_prop (new ! k) ''path'' =
                   Inr (JStr (to_string (or_else ip (JStr [])) @ to_string sp))) \<and>
              (\<forall>hs. get_prop (subs ! k) ''handlers'' = Inr (JArr hs) \<longrightarrow>
                 get_prop (new ! k) ''handlers'' =
                   Inr (JArr (middlewares_before this @ hs @ middlewares_after this @
                              catcher_handlers (catchers this)))))"
  using assms(1)
proof (induction subs arbitrary: acc)
  case Nil
  show ?case by simp
next
  case (Cons sr subs)
  from Cons.prems obtain ps hs where sr: "sr = JObj ps"
    and hs: "map_of ps ''handlers'' = Some (JArr hs)"
    by auto
  define sp where "sp = (case map_of ps ''path'' of Some x \<Rightarrow> x | None \<Rightarrow> JUndefined)"
  define p where "p = JStr (to_string (or_else ip (JStr [])) @ to_string sp)"
  define r where "r = JObj (AList.update ''handlers''
                   (JArr (middlewares_before this @ hs @ middlewares_after this @
                          catcher_handlers (catchers this)))
                   (AList.update ''path'' p ps))"
  have sp: "get_prop sr ''path'' = Inr sp"
    by (simp add: sr sp_def get_prop_def)
  have one: "appendToRoutes this acc (JObj (AList.update ''path'' p (own_props sr)))
               = Inr (acc @ [r])"
    by (simp add: appendToRoutes_def get_prop_def update_conv' hs sr own_props_def
          spread_def r_def)
  from Cons.prems have "\<forall>sr \<in> set subs. \<exists>ps hs. sr = JObj ps \<and> map_of ps ''handlers'' = Some (JArr hs)"
    by simp
  from Cons.IH [OF this, of "acc @ [r]"] obtain new where
    new: "appendSubRoutes this item subs (acc @ [r]) = Inr ((acc @ [r]) @ new)"
      "length new = length subs"
      "\<forall>k < length subs.
              (\<forall>sp. get_prop (subs ! k) ''path'' = Inr sp \<longrightarrow>
                 get_prop (new ! k) ''path'' =
                   Inr (JStr (to_string (or_else ip (JStr [])) @ to_string sp))) \<and>
              (\<forall>hs. get_prop (subs ! k) ''handlers'' = Inr (JArr hs) \<longrightarrow>
                 get_prop (new ! k) ''handlers'' =
                   Inr (JArr (middlewares_before this @ hs @ middlewares_after this @
                              catcher_handlers (catchers this))))"
    by blast
  have run: "appendSubRoutes this item (sr # subs) acc = Inr (acc @ r # new)"
    using one new(1) sp assms(2) by (simp add: p_def)
  have rp: "get_prop r ''path'' = Inr p"
    by (simp add: r_def get_prop_def update_conv')
  have rh: "get_prop r ''handlers'' =
      Inr (JArr (middlewares_before this @ hs @ middlewares_after this @
                 catcher_handlers (catchers this)))"
    by (simp add: r_def get_prop_update_same)
  have srh: "get_prop sr ''handlers'' = Inr (JArr hs)"
    by (simp add: sr get_prop_def hs)
  show ?case
  proof (intro exI [of _ "r # new"] conjI allI impI)
    show "appendSubRoutes this item (sr # subs) acc = Inr (acc @ r # new)" by (rule run)
    show "length (r # new) = length (sr # subs)" using new(2) by simp
  next
    fix k sp'
    assume "k < length (sr # subs)" "get_prop ((sr # subs) ! k) ''path'' = Inr sp'"
    then show "get_prop ((r # new) ! k) ''path'' =
        Inr (JStr (to_string (or_else ip (JStr [])) @ to_string sp'))"
      using new(3) sp rp by (cases k) (auto simp: p_def)
  next
    fix k hs'
    assume "k < length (sr # subs)" "get_prop ((sr # subs) ! k) ''handlers'' = Inr (JArr hs')"
    then show "get_prop ((r # new) ! k) ''handlers'' =
        Inr (JArr (middlewares_before this @ hs' @ middlewares_after this @
                   catcher_handlers (catchers this)))"
      using new(3) srh rh by (cases k) auto
  qed
qed


subsection \<open>The body of the loop\<close>

text \<open>
  An item either makes the collector call itself, on the subgroup the item refers to, or
  is dealt with on the spot, whatever the bound, reading no group but the receiver.
\<close>

lemma collectItem_call:
  assumes "get_prop item ''type'' = Inr (JStr ''group'')"
    and "get_prop item ''group'' = Inr (JGroup sub)"
  shows "collectItem n s this item routes =
     (case collectRoutes n s sub of
        None \<Rightarrow> None
      | Some (Inl e, s') \<Rightarrow> Some (Inl e, s')
      | Some (Inr subRoutes, s') \<Rightarrow>
          (case appendSubRoutes (s' this) item subRoutes routes of
             Inl e \<Rightarrow> Some (Inl e, s')
           | Inr routes' \<Rightarrow> Some (Inr routes', s')))"
  using assms by (simp add: collectItem.simps)

lemma collectItem_no_call:
  assumes "\<not> (\<exists>sub. get_prop item ''type'' = Inr (JStr ''group'') \<and>
                  get_prop item ''group'' = Inr (JGroup sub))"
  shows "\<exists>r. collectItem n s this item routes = Some (r, s)"
  using assms
  by (cases "get_prop item ''type''"; cases "get_prop item ''group''")
     (auto simp: collectItem.simps split: sum.splits jsval.splits)

lemma collectItem_no_call_frame:
  assumes "\<not> (\<exists>sub. get_prop item ''type'' = Inr (JStr ''group'') \<and>
                  get_prop item ''group'' = Inr (JGroup sub))"
    and "middlewares_before (s this) = middlewares_before (t this)"
    and "middlewares_after (s this) = middlewares_after (t this)"
    and "catchers (s this) = catchers (t this)"
    and "collectItem n s this item routes = Some (r, s')"
  shows "collectItem m t this item routes = Some (r, t)"
  using assms(1,5) appendToRoutes_cong [OF assms(2-4), of routes item]
  by (cases "get_prop item ''type''"; cases "get_prop item ''group''")
     (auto simp: collectItem.simps split: sum.splits jsval.splits if_splits)


subsection \<open>The collector leaves the store alone\<close>

text \<open>
  By induction on the bound, through the three functions: the store that an invocation
  hands back is the store it was given.
\<close>

lemma collect_store:
  "(collectRoutes n s a = Some (r, s') \<longrightarrow> s' = s) \<and>
   (collectItems n s a i acc = Some (r, s') \<longrightarrow> s' = s) \<and>
   (collectItem n s a item acc = Some (r, s') \<longrightarrow> s' = s)"
proof (induction n arbitrary: s a i acc item r s')
  case 0
  have "s' = s" if "collectItem 0 s a item acc = Some (r, s')"
  proof (cases "\<exists>sub. get_prop item ''type'' = Inr (JStr ''group'') \<and>
                  get_prop item ''group'' = Inr (JGroup sub)")
    case True
    with that show ?thesis by (auto simp: collectItem_call)
  next
    case False
    from collectItem_no_call [OF this, of 0 s a acc] that show ?thesis by auto
  qed
  then show ?case by simp
next
  case (Suc n)
  note routes = Suc.IH [THEN conjunct1, rule_format]
  note loop = Suc.IH [THEN conjunct2, THEN conjunct1, rule_format]
  note body = Suc.IH [THEN conjunct2, THEN conjunct2, rule_format]
  have 1: "s' = s" if "collectRoutes (Suc n) s a = Some (r, s')" for s a r s'
    using that loop by simp
  have 2: "s' = s" if "collectItems (Suc n) s a i acc = Some (r, s')"
    using that
    by (auto split: if_splits option.splits prod.splits sum.splits dest: body loop)
  have 3: "s' = s" if "collectItem (Suc n) s a item acc = Some (r, s')"
  proof (cases "\<exists>sub. get_prop item ''type'' = Inr (JStr ''group'') \<and>
                  get_prop item ''group'' = Inr (JGroup sub)")
    case True
    with that show ?thesis
      by (auto simp: collectItem_call simp del: collectRoutes.simps
            split: option.splits prod.splits sum.splits dest: 1)
  next
    case False
    from collectItem_no_call [OF this, of "Suc n" s a acc] that show ?thesis by auto
  qed
  from 1 2 3 show ?case by blast
qed

lemma collectRoutes_store: "collectRoutes n s a = Some (r, s') \<Longrightarrow> s' = s"
  using collect_store by blast

lemma collectItems_store: "collectItems n s a i acc = Some (r, s') \<Longrightarrow> s' = s"
  using collect_store by blast

lemma collectItem_store: "collectItem n s a item acc = Some (r, s') \<Longrightarrow> s' = s"
  using collect_store by blast


subsection \<open>A larger bound changes nothing\<close>

lemma collectItem_no_call_fuel:
  assumes "\<not> (\<exists>sub. get_prop item ''type'' = Inr (JStr ''group'') \<and>
                  get_prop item ''group'' = Inr (JGroup sub))"
    and "collectItem n s this item routes = Some x"
  shows "collectItem m s this item routes = Some x"
proof -
  obtain r s' where x: "x = (r, s')" by (cases x)
  with assms(2) have "s' = s" using collectItem_store by blast
  with collectItem_no_call_frame [where s = s and t = s and this = this and item = item
      and routes = routes and n = n and m = m and r = r and s' = s'] assms x
  show ?thesis by simp
qed

lemma collect_mono_Suc:
  "(collectRoutes n s a = Some x \<longrightarrow> collectRoutes (Suc n) s a = Some x) \<and>
   (collectItems n s a i acc = Some x \<longrightarrow> collectItems (Suc n) s a i acc = Some x) \<and>
   (collectItem n s a item acc = Some x \<longrightarrow> collectItem (Suc n) s a item acc = Some x)"
proof (induction n arbitrary: s a i acc item x)
  case 0
  have "collectItem (Suc 0) s a item acc = Some x" if "collectItem 0 s a item acc = Some x"
  proof (cases "\<exists>sub. get_prop item ''type'' = Inr (JStr ''group'') \<and>
                  get_prop item ''group'' = Inr (JGroup sub)")
    case True
    with that show ?thesis by (auto simp: collectItem_call)
  next
    case False
    from collectItem_no_call_fuel [OF this that] show ?thesis .
  qed
  then show ?case by simp
next
  case (Suc n)
  note loop = Suc.IH [THEN conjunct2, THEN conjunct1, rule_format]
  note body = Suc.IH [THEN conjunct2, THEN conjunct2, rule_format]
  have 1: "collectRoutes (Suc (Suc n)) s a = Some x"
    if "collectRoutes (Suc n) s a = Some x" for s a x
    using that loop [of s a 0 "[]" x] by simp
  have 3: "collectItem (Suc (Suc n)) s a item acc = Some x"
    if run: "collectItem (Suc n) s a item acc = Some x"
  proof (cases "\<exists>sub. get_prop item ''type'' = Inr (JStr ''group'') \<and>
                  get_prop item ''group'' = Inr (JGroup sub)")
    case True
    then obtain sub where call: "get_prop item ''type'' = Inr (JStr ''group'')"
      "get_prop item ''group'' = Inr (JGroup sub)" by blast
    from run obtain y where y: "collectRoutes (Suc n) s sub = Some y"
      unfolding collectItem_call [OF call] by (cases "collectRoutes (Suc n) s sub") auto
    from 1 [OF y] y run show ?thesis
      unfolding collectItem_call [OF call] by simp
  next
    case False
    from collectItem_no_call_fuel [OF this run] show ?thesis .
  qed
  have 2: "collectItems (Suc (Suc n)) s a i acc = Some x"
    if run: "collectItems (Suc n) s a i acc = Some x"
  proof (cases "i < length (items (s a))")
    case False
    with run show ?thesis by simp
  next
    case True
    from run True obtain y where y: "collectItem n s a (items (s a) ! i) acc = Some y"
      by (cases "collectItem n s a (items (s a) ! i) acc") auto
    from body [OF y] have y': "collectItem (Suc n) s a (items (s a) ! i) acc = Some y" .
    show ?thesis
    proof (cases y)
      case (Pair r s1)
      show ?thesis
      proof (cases r)
        case (Inl e)
        with run True y Pair have "x = (Inl e, s1)" by simp
        with True y' Pair Inl show ?thesis
          by (simp del: collectItems.simps add: collectItems.simps(2) [of "Suc n"])
      next
        case (Inr acc')
        with run True y Pair have "collectItems n s1 a (Suc i) acc' = Some x"
          by simp
        from loop [OF this] True y' Pair Inr show ?thesis
          by (simp del: collectItems.simps add: collectItems.simps(2) [of "Suc n"])
      qed
    qed
  qed
  from 1 2 3 show ?case by blast
qed

lemma collectRoutes_mono:
  "collectRoutes n s a = Some x \<Longrightarrow> n \<le> m \<Longrightarrow> collectRoutes m s a = Some x"
  by (induction m) (auto simp: le_Suc_eq simp del: collectRoutes.simps
        dest: collect_mono_Suc [THEN conjunct1, rule_format])

lemma collectItems_mono:
  "collectItems n s a i acc = Some x \<Longrightarrow> n \<le> m \<Longrightarrow> collectItems m s a i acc = Some x"
  by (induction m) (auto simp: le_Suc_eq simp del: collectItems.simps
        dest: collect_mono_Suc [THEN conjunct2, THEN conjunct1, rule_format])

lemma collectItem_mono:
  "collectItem n s a item acc = Some x \<Longrightarrow> n \<le> m \<Longrightarrow> collectItem m s a item acc = Some x"
  by (induction m) (auto simp: le_Suc_eq
        dest: collect_mono_Suc [THEN conjunct2, THEN conjunct2, rule_format])

lemma collectRoutes_determ:
  assumes "collectRoutes n s a = Some x" and "collectRoutes m s a = Some y"
  shows "x = y"
proof -
  from collectRoutes_mono [OF assms(1), of "max n m"]
    collectRoutes_mono [OF assms(2), of "max n m"]
  show ?thesis by simp
qed

lemma collectRoutes_None_less:
  "collectRoutes m s a = None \<Longrightarrow> n \<le> m \<Longrightarrow> collectRoutes n s a = None"
  using collectRoutes_mono [of n s a _ m] by (cases "collectRoutes n s a") auto

lemma least_fuel:
  assumes "collectRoutes n s a = Some y"
  obtains k where "Suc k \<le> n" and "collectRoutes k s a = None"
    and "collectItems k s a 0 [] = Some y"
proof -
  define m0 where "m0 = (LEAST m. collectRoutes m s a \<noteq> None)"
  from assms have ex: "collectRoutes n s a \<noteq> None" by simp
  then have m0: "collectRoutes m0 s a \<noteq> None" unfolding m0_def by (rule LeastI)
  from ex have le: "m0 \<le> n" unfolding m0_def by (rule Least_le)
  from m0 obtain k where k: "m0 = Suc k" by (cases m0) auto
  have "\<not> collectRoutes k s a \<noteq> None"
    using not_less_Least [of k "\<lambda>m. collectRoutes m s a \<noteq> None"] k
    unfolding m0_def by simp
  then have "collectRoutes k s a = None" by (cases "collectRoutes k s a") auto
  moreover from m0 obtain z where z: "collectRoutes m0 s a = Some z" by auto
  from collectRoutes_determ [OF z assms] z k have "collectItems k s a 0 [] = Some y" by simp
  ultimately show ?thesis using that le k by simp
qed


subsection \<open>What a collection returns\<close>

text \<open>
  Every route that a collection returns was pushed by the \<open>appendToRoutes\<close> of the
  collecting group; to return routes at all, the loop must have got past every item.
\<close>

lemma collectItem_out:
  assumes "collectItem n s a item acc = Some (Inr rs, s')"
  shows "\<exists>new. rs = acc @ new \<and>
           (\<forall>r \<in> set new. \<exists>route. appendToRoutes (s a) [] route = Inr [r])"
proof (cases "\<exists>sub. get_prop item ''type'' = Inr (JStr ''group'') \<and>
                get_prop item ''group'' = Inr (JGroup sub)")
  case True
  then obtain sub where call: "get_prop item ''type'' = Inr (JStr ''group'')"
    "get_prop item ''group'' = Inr (JGroup sub)" by blast
  from assms obtain subs s1 where sub: "collectRoutes n s sub = Some (Inr subs, s1)"
    and app: "appendSubRoutes (s1 a) item subs acc = Inr rs"
    unfolding collectItem_call [OF call]
    by (auto split: option.splits prod.splits sum.splits)
  from collectRoutes_store [OF sub] have "s1 = s" .
  with appendSubRoutes_out [OF app] show ?thesis by blast
next
  case False
  with assms have app: "appendToRoutes (s a) acc item = Inr rs"
    by (cases "get_prop item ''type''"; cases "get_prop item ''group''")
       (auto simp: collectItem.simps split: sum.splits jsval.splits if_splits)
  then obtain r where r: "rs = acc @ [r]"
    by (auto elim: appendToRoutes_Inr)
  with app have "appendToRoutes (s a) [] item = Inr [r]"
    using appendToRoutes_any_acc [of "s a" acc item r "[]"] by simp
  with r show ?thesis by auto
qed

lemma collectItems_out:
  "collectItems n s a i acc = Some (Inr rs, s') \<Longrightarrow>
   \<exists>new. rs = acc @ new \<and>
     (\<forall>r \<in> set new. \<exists>route. appendToRoutes (s a) [] route = Inr [r])"
proof (induction n arbitrary: i acc)
  case 0
  then show ?case by simp
next
  case (Suc n)
  show ?case
  proof (cases "i < length (items (s a))")
    case False
    with Suc.prems show ?thesis by simp
  next
    case True
    with Suc.prems obtain acc' s1 where
      body: "collectItem n s a (items (s a) ! i) acc = Some (Inr acc', s1)"
      and rest: "collectItems n s1 a (Suc i) acc' = Some (Inr rs, s')"
      by (auto split: option.splits prod.splits sum.splits)
    from collectItem_store [OF body] have s1: "s1 = s" .
    from collectItem_out [OF body] obtain new1 where
      n1: "acc' = acc @ new1"
        "\<forall>r \<in> set new1. \<exists>route. appendToRoutes (s a) [] route = Inr [r]"
      by blast
    from Suc.IH [OF rest [unfolded s1]] obtain new2 where
      n2: "rs = acc' @ new2"
        "\<forall>r \<in> set new2. \<exists>route. appendToRoutes (s a) [] route = Inr [r]"
      by blast
    show ?thesis
      by (rule exI [of _ "new1 @ new2"]) (use n1 n2 in auto)
  qed
qed

lemma collectRoutes_out:
  assumes "collectRoutes n s a = Some (Inr rs, s')" and "r \<in> set rs"
  shows "\<exists>route. appendToRoutes (s a) [] route = Inr [r]"
proof (cases n)
  case 0
  with assms show ?thesis by simp
next
  case (Suc k)
  with assms have "collectItems k s a 0 [] = Some (Inr rs, s')" by simp
  from collectItems_out [OF this] assms(2) show ?thesis by auto
qed

lemma collectRoutes_shape:
  assumes "collectRoutes n s a = Some (Inr rs, s')" and "r \<in> set rs"
  shows "\<exists>ps hs. r = JObj ps \<and> map_of ps ''handlers'' = Some (JArr hs)"
proof -
  from collectRoutes_out [OF assms] obtain route where
    "appendToRoutes (s a) [] route = Inr [r]" by blast
  then show ?thesis
    by (auto elim!: appendToRoutes_Inr simp: update_conv')
qed

lemma loop_reaches:
  "collectItems n t a i acc = Some (Inr rs, t') \<Longrightarrow> i \<le> j \<Longrightarrow> j < length (items (t a)) \<Longrightarrow>
   \<exists>m acc1 acc2 t2. collectItem m t a (items (t a) ! j) acc1 = Some (Inr acc2, t2)"
proof (induction n arbitrary: i acc)
  case 0
  then show ?case by simp
next
  case (Suc n)
  from Suc.prems have i: "i < length (items (t a))" by simp
  with Suc.prems(1) obtain acc' s1 where
    body: "collectItem n t a (items (t a) ! i) acc = Some (Inr acc', s1)"
    and rest: "collectItems n s1 a (Suc i) acc' = Some (Inr rs, t')"
    by (auto split: option.splits prod.splits sum.splits)
  from collectItem_store [OF body] have s1: "s1 = t" .
  show ?case
  proof (cases "i = j")
    case True
    with body show ?thesis by blast
  next
    case False
    with Suc.prems have "Suc i \<le> j" by simp
    from Suc.IH [OF rest [unfolded s1] this Suc.prems(3)] show ?thesis .
  qed
qed


subsection \<open>Collecting after an item has been appended\<close>

text \<open>
  Let an item be appended to the group \<open>this\<close>. An invocation that returned or raised
  before, under the least bound that lets it do so, never called the method on \<open>this\<close>
  again (that call would need a smaller bound). So it does the same in the new store, up
  to the point where the old loop ended and the new loop meets the new item.
\<close>

lemma frame_push_item:
  fixes s :: store and this :: nat and x :: jsval
  defines "t \<equiv> modify s this (\<lambda>g. push_item g x)"
  shows "collectRoutes j s this = None \<Longrightarrow>
     (collectRoutes j s a = Some (out, s1) \<longrightarrow> collectRoutes j t a = Some (out, t)) \<and>
     (a \<noteq> this \<longrightarrow> collectItems j s a i acc = Some (out, s1) \<longrightarrow>
        collectItems j t a i acc = Some (out, t)) \<and>
     (collectItem j s a item acc = Some (out, s1) \<longrightarrow>
        collectItem j t a item acc = Some (out, t))"
proof (induction j arbitrary: a i acc item out s1)
  case 0
  have same: "middlewares_before (s a) = middlewares_before (t a)"
    "middlewares_after (s a) = middlewares_after (t a)" "catchers (s a) = catchers (t a)"
    by (simp_all add: t_def modify_def push_item_def)
  have "collectItem 0 t a item acc = Some (out, t)"
    if run: "collectItem 0 s a item acc = Some (out, s1)"
  proof (cases "\<exists>sub. get_prop item ''type'' = Inr (JStr ''group'') \<and>
                  get_prop item ''group'' = Inr (JGroup sub)")
    case True
    with run show ?thesis by (auto simp: collectItem_call)
  next
    case False
    from collectItem_no_call_frame [where s = s and t = t and this = a, OF False same run]
    show ?thesis .
  qed
  then show ?case by simp
next
  case (Suc j)
  from Suc.prems have none: "collectRoutes j s this = None"
    by (rule collectRoutes_None_less) simp
  note routes = Suc.IH [OF none, THEN conjunct1, rule_format]
  note loop = Suc.IH [OF none, THEN conjunct2, THEN conjunct1, rule_format]
  note body = Suc.IH [OF none, THEN conjunct2, THEN conjunct2, rule_format]
  have same: "middlewares_before (s a) = middlewares_before (t a)"
    "middlewares_after (s a) = middlewares_after (t a)" "catchers (s a) = catchers (t a)" for a
    by (simp_all add: t_def modify_def push_item_def)
  have 1: "collectRoutes (Suc j) t a = Some (out, t)"
    if run: "collectRoutes (Suc j) s a = Some (out, s1)" for a out s1
  proof -
    from run Suc.prems have "a \<noteq> this" by auto
    with run loop [of a 0 "[]" out s1] show ?thesis by simp
  qed
  have 3: "collectItem (Suc j) t a item acc = Some (out, t)"
    if run: "collectItem (Suc j) s a item acc = Some (out, s1)"
  proof (cases "\<exists>sub. get_prop item ''type'' = Inr (JStr ''group'') \<and>
                  get_prop item ''group'' = Inr (JGroup sub)")
    case True
    then obtain sub where call: "get_prop item ''type'' = Inr (JStr ''group'')"
      "get_prop item ''group'' = Inr (JGroup sub)" by blast
    from run obtain r s2 where y: "collectRoutes (Suc j) s sub = Some (r, s2)"
      unfolding collectItem_call [OF call] by (cases "collectRoutes (Suc j) s sub") auto
    from collectRoutes_store [OF y] have s2: "s2 = s" .
    from 1 [OF y] y run s2 show ?thesis
      unfolding collectItem_call [OF call]
      by (auto simp: appendSubRoutes_cong [OF same] split: sum.splits)
  next
    case False
    from collectItem_no_call_frame [where s = s and t = t and this = a, OF False same run]
    show ?thesis .
  qed
  have 2: "collectItems (Suc j) t a i acc = Some (out, t)"
    if run: "collectItems (Suc j) s a i acc = Some (out, s1)" and a: "a \<noteq> this"
  proof -
    from a have ta: "t a = s a" by (simp add: t_def modify_def)
    show ?thesis
    proof (cases "i < length (items (s a))")
      case False
      with run ta show ?thesis by simp
    next
      case True
      from run True obtain r s2 where
        y: "collectItem j s a (items (s a) ! i) acc = Some (r, s2)"
        by (cases "collectItem j s a (items (s a) ! i) acc") auto
      from collectItem_store [OF y] have s2: "s2 = s" .
      from body [OF y] have y': "collectItem j t a (items (s a) ! i) acc = Some (r, t)" .
      show ?thesis
      proof (cases r)
        case (Inl e)
        with run True y have "out = Inl e" by simp
        with True y' Inl ta show ?thesis by simp
      next
        case (Inr acc')
        with run True y s2 have "collectItems j s a (Suc i) acc' = Some (out, s1)" by simp
        from loop [OF a this] True y' Inr ta show ?thesis by simp
      qed
    qed
  qed
  from 1 2 3 show ?case by blast
qed

lemma extend_loop:
  fixes s :: store and this :: nat and x :: jsval
  defines "t \<equiv> modify s this (\<lambda>g. push_item g x)"
  assumes "collectRoutes k s this = None"
    and "collectItems k s this i acc = Some (out, s1)"
    and "i \<le> length (items (s this))"
  shows "case out of
           Inl e \<Rightarrow> collectItems k t this i acc = Some (Inl e, t)
         | Inr r \<Rightarrow> (\<forall>m res. collectItems m t this (length (items (s this))) r = Some res \<longrightarrow>
                        collectItems (k + m) t this i acc = Some res)"
  using assms(2-4)
proof (induction k arbitrary: i acc)
  case 0
  then show ?case by simp
next
  case (Suc k)
  from Suc.prems(1) have none: "collectRoutes k s this = None"
    by (rule collectRoutes_None_less) simp
  have its: "items (t this) = items (s this) @ [x]"
    by (simp add: t_def modify_def push_item_def)
  show ?case
  proof (cases "i < length (items (s this))")
    case False
    with Suc.prems have i: "i = length (items (s this))" and out: "out = Inr acc"
      by auto
    have "collectItems (Suc k + m) t this i acc = Some res"
      if "collectItems m t this (length (items (s this))) acc = Some res" for m res
      using collectItems_mono [OF that, of "Suc k + m"] i by simp
    with out show ?thesis by simp
  next
    case True
    then have it: "i < length (items (t this))" "items (t this) ! i = items (s this) ! i"
      by (simp_all add: its nth_append)
    from Suc.prems(2) True obtain r s2 where
      y: "collectItem k s this (items (s this) ! i) acc = Some (r, s2)"
      by (cases "collectItem k s this (items (s this) ! i) acc") auto
    from collectItem_store [OF y] have s2: "s2 = s" .
    from frame_push_item [where j = k and s = s and this = this and x = x and a = this
        and item = "items (s this) ! i" and acc = acc and out = r,
        OF none, THEN conjunct2, THEN conjunct2, rule_format] y
    have y': "collectItem k t this (items (s this) ! i) acc = Some (r, t)"
      by (simp add: t_def)
    show ?thesis
    proof (cases r)
      case (Inl e)
      with Suc.prems(2) True y have "out = Inl e" by simp
      with it y' Inl show ?thesis by simp
    next
      case (Inr acc')
      with Suc.prems(2) True y s2 have
        rest: "collectItems k s this (Suc i) acc' = Some (out, s1)" by simp
      from True have "Suc i \<le> length (items (s this))" by simp
      note IH = Suc.IH [OF none rest this]
      show ?thesis
      proof (cases out)
        case e: (Inl e)
        with IH it y' Inr show ?thesis by simp
      next
        case rs: (Inr rs)
        have "collectItems (Suc k + m) t this i acc = Some res"
          if fin: "collectItems m t this (length (items (s this))) rs = Some res" for m res
        proof -
          from IH rs fin have "collectItems (k + m) t this (Suc i) acc' = Some res"
            by (cases res) simp
          moreover from collectItem_mono [OF y', of "k + m"]
          have "collectItem (k + m) t this (items (s this) ! i) acc = Some (r, t)" by simp
          ultimately show ?thesis using it Inr by simp
        qed
        with rs show ?thesis by simp
      qed
    qed
  qed
qed

lemma collect_after_push:
  fixes s :: store and this :: nat and x :: jsval
  defines "t \<equiv> modify s this (\<lambda>g. push_item g x)"
  assumes "collectRoutes n s this = Some (out, s1)"
  shows "case out of
           Inl e \<Rightarrow> collectRoutes n t this = Some (Inl e, t)
         | Inr r \<Rightarrow> (\<forall>m res. collectItems m t this (length (items (s this))) r = Some res \<longrightarrow>
                        collectRoutes (n + m) t this = Some res)"
proof -
  from least_fuel [OF assms(2)] obtain k where k: "Suc k \<le> n"
    "collectRoutes k s this = None" "collectItems k s this 0 [] = Some (out, s1)"
    by blast
  note ext = extend_loop [of k s this 0 "[]" out s1 x, OF k(2,3), folded t_def]
  show ?thesis
  proof (cases out)
    case (Inl e)
    with ext have "collectRoutes (Suc k) t this = Some (Inl e, t)" by simp
    from collectRoutes_mono [OF this k(1)] Inl show ?thesis by simp
  next
    case (Inr r)
    have "collectRoutes (n + m) t this = Some res"
      if "collectItems m t this (length (items (s this))) r = Some res" for m res
    proof -
      from ext Inr that have "collectRoutes (Suc (k + m)) t this = Some res"
        by (cases res) simp
      from collectRoutes_mono [OF this, of "n + m"] k(1) show ?thesis by simp
    qed
    with Inr show ?thesis by simp
  qed
qed


subsection \<open>Registration\<close>

lemma missing_error_classes:
  "map_of Group_errors ''InvalidPathError'' = None"
  "map_of Group_errors ''InvalidMethodsError'' = None"
  "map_of Group_errors ''InvalidMethodError'' = None"
  "map_of Group_errors ''InvalidHandlersError'' = None"
  "map_of Group_errors ''HandlerCannotBeGroupError'' = None"
  by (simp_all add: Group_errors_def)

lemma trim_get: "trim ''get'' = ''get''"
  by (simp add: trim_def is_space_def)

lemma check_handlers_non_object:
  "check_handlers (JFun n src # rest) =
     Inl (InvalidHandlerSpecificationError
            (JStr (''Invalid handler respondsTo: '' @ quoted ''undefined'')))"
  "check_handlers (JArr xs # rest) =
     Inl (InvalidHandlerSpecificationError
            (JStr (''Invalid handler respondsTo: '' @ quoted ''undefined'')))"
  by (simp_all add: instanceof_Group_def get_prop_def throw_new_def Group_errors_def)

lemma check_handlers_array:
  "check_handlers [JArr xs] =
     Inl (InvalidHandlerSpecificationError
            (JStr (''Invalid handler respondsTo: '' @ quoted ''undefined'')))"
  by (simp add: instanceof_Group_def get_prop_def throw_new_def Group_errors_def)

lemma check_handlers_then_object:
  "check_handlers [JObj [(''name'', nm), (''respondsTo'', JStr ''then''), (''callback'', cb)]] = Inr ()"
  by (simp add: instanceof_Group_def get_prop_def)

lemma addHandlers_handler_object:
  "addHandlers s this (JArr [JStr ''get'']) (JStr p)
     [JObj [(''name'', nm), (''respondsTo'', JStr ''then''), (''callback'', cb)]] =
   (if index_from CHR ''/'' p 0 = 0 then
      Inr (modify s this (\<lambda>g. push_item g
        (JObj [(''type'', JStr ''handler''), (''methods'', JArr [JStr ''get'']),
               (''path'', JStr p),
               (''handlers'',
                JArr [JObj [(''name'', nm), (''respondsTo'', JStr ''then''),
                            (''callback'', cb)]])])))
    else Inl (TypeError ''Group.errors.InvalidPathError is not a constructor''))"
  by (simp add: addHandlers.simps [of s this "JArr [JStr ''get'']"] typeof_def indexOf_slash_def
        trim_get check_handlers_then_object throw_new_def missing_error_classes
      del: check_handlers.simps)


text \<open>
  A successful registration pushes an item tagged \<^verbatim>\<open>"handler"\<close>, and only the array form
  of \<^verbatim>\<open>methods\<close> can succeed: the other forms hand the rest array on as a single
  handler, which the inner loop rejects.
\<close>

lemma addHandlers_array_Inr:
  assumes "addHandlers s this (JArr ms) path handlers = Inr s'"
  shows "\<exists>hs'. s' =
           modify s this (\<lambda>g. push_item g
             (JObj [(''type'', JStr ''handler''), (''methods'', JArr ms),
                    (''path'', path), (''handlers'', JArr hs')]))"
  using assms
  by (auto simp: addHandlers.simps [of s this "JArr ms"] throw_new_def
        split: if_splits sum.splits option.splits)

lemma addHandlers_packed_fails:
  "\<exists>e. addHandlers s this (JArr ms) path [JArr hs] = Inl e"
  by (auto simp: addHandlers.simps [of s this "JArr ms"] throw_new_def check_handlers_array
        simp del: check_handlers.simps
        split: if_splits sum.splits option.splits)

lemma addHandlers_not_array_fails:
  assumes "\<not> isArray methods"
  shows "\<exists>e. addHandlers s this methods path handlers = Inl e"
proof -
  from assms have
    "addHandlers s this methods path handlers =
       (if eq_null methods then addHandlers s this (JArr []) path [JArr handlers]
        else addHandlers s this (JArr [methods]) path [JArr handlers])"
    by (subst addHandlers.simps) (cases methods; simp add: isArray_def)
  then show ?thesis
    using addHandlers_packed_fails [of s this "[]" path handlers]
      addHandlers_packed_fails [of s this "[methods]" path handlers]
    by auto
qed

lemma addHandlers_Inr:
  assumes "addHandlers s this methods path handlers = Inr s'"
  shows "\<exists>ms hs'. s' =
           modify s this (\<lambda>g. push_item g
             (JObj [(''type'', JStr ''handler''), (''methods'', JArr ms),
                    (''path'', path), (''handlers'', JArr hs')]))"
proof (cases "isArray methods")
  case True
  then obtain ms where "methods = JArr ms"
    by (cases methods) (simp_all add: isArray_def)
  with assms show ?thesis
    using addHandlers_array_Inr by blast
next
  case False
  from addHandlers_not_array_fails [OF this, of s this path handlers] assms
  show ?thesis by simp
qed

lemma collectItem_handler_item:
  "collectItem n s this (JObj ((''type'', JStr ''handler'') # ps)) acc =
     Some (Inl (Error (''Bad type: '' @ quoted ''handler'')), s)"
  by (simp add: collectItem.simps get_prop_def)


subsection \<open>Nested groups are references\<close>

text \<open>
  The composition of a nested group, on a leaf tagged \<^verbatim>\<open>"route"\<close> (the tag the collector
  accepts): the prefix is concatenated and the parent's layer surrounds the child's.
\<close>

lemma nesting_order_with_route_tag:
  "collectRoutes (Suc (Suc (Suc (Suc (Suc (Suc k))))))
       (s(0 := Group [] [] [pb]
              [JObj [(''type'', JStr ''group''), (''path'', JStr ''/child''),
                     (''group'', JGroup 1)]],
          1 := Group [] [] [cb]
              [JObj [(''type'', JStr ''route''), (''methods'', JArr [JStr ''get'']),
                     (''path'', JStr ''/leaf''), (''handlers'', JArr [h])]])) 0 =
     Some (Inr [JObj [(''type'', JStr ''route''), (''methods'', JArr [JStr ''get'']),
                      (''path'', JStr ''/child/leaf''),
                      (''handlers'', JArr [pb, cb, h])]],
       s(0 := Group [] [] [pb]
              [JObj [(''type'', JStr ''group''), (''path'', JStr ''/child''),
                     (''group'', JGroup 1)]],
          1 := Group [] [] [cb]
              [JObj [(''type'', JStr ''route''), (''methods'', JArr [JStr ''get'']),
                     (''path'', JStr ''/leaf''), (''handlers'', JArr [h])]]))"
  by (simp add: collectItem.simps get_prop_def appendToRoutes_def spread_def own_props_def
        catcher_handlers_def or_else_def truthy_def)


text \<open>
  A child that is changed after it has been attached is collected as it is at the time of
  the collection: here the child at address 1 is attached while empty, and gets its item
  and its middleware afterwards.
\<close>

lemma attached_child_is_shared:
  "addGroup (s(0 := Group_new, 1 := Group_new)) 0 (JStr ''/child'') (JGroup 1) =
     Inr (s(0 := Group [] [] []
                  [JObj [(''type'', JStr ''group''), (''path'', JStr ''/child''),
                         (''group'', JGroup 1)]],
            1 := Group_new))
   \<and> collectRoutes (Suc (Suc (Suc (Suc (Suc (Suc k))))))
        (before
          (s(0 := Group [] [] []
                  [JObj [(''type'', JStr ''group''), (''path'', JStr ''/child''),
                         (''group'', JGroup 1)]],
             1 := Group [] [] []
                  [JObj [(''type'', JStr ''route''), (''path'', JStr ''/leaf''),
                         (''handlers'', JArr [h])]])) 1 cb) 0 =
     Some (Inr [JObj [(''type'', JStr ''route''), (''path'', JStr ''/child/leaf''),
                      (''handlers'', JArr [cb, h])]],
       before
          (s(0 := Group [] [] []
                  [JObj [(''type'', JStr ''group''), (''path'', JStr ''/child''),
                         (''group'', JGroup 1)]],
             1 := Group [] [] []
                  [JObj [(''type'', JStr ''route''), (''path'', JStr ''/leaf''),
                         (''handlers'', JArr [h])]])) 1 cb)"
  by (simp add: addGroup.simps instanceof_Group_def eq_null_def indexOf_slash_def
        Group_new_def push_item_def modify_def fun_upd_twist before_def unshift_before_def
        collectItem.simps get_prop_def appendToRoutes_def spread_def own_props_def
        catcher_handlers_def or_else_def truthy_def)


text \<open>
  \<^verbatim>\<open>g.addGroup(g)\<close> is accepted. From then on \<^verbatim>\<open>g.collectRoutes()\<close> calls itself
  without end: no bound lets it return or raise.
\<close>

lemma self_attachment_never_returns:
  assumes "items (s g) = []"
    and "addGroup s g (JGroup g) JUndefined = Inr s'"
  shows "collectRoutes n s' g = None"
proof -
  let ?x = "JObj [(''type'', JStr ''group''), (''path'', JNull), (''group'', JGroup g)]"
  have "addGroup s g JNull (JGroup g) = Inr (modify s g (\<lambda>h. push_item h ?x))"
    by (simp add: addGroup.simps [of s g JNull] instanceof_Group_def eq_null_def)
  then have "addGroup s g (JGroup g) JUndefined = Inr (modify s g (\<lambda>h. push_item h ?x))"
    by (simp add: addGroup.simps [of s g "JGroup g"] instanceof_Group_def eq_null_def)
  with assms have its: "items (s' g) = [?x]"
    by (auto simp: modify_def push_item_def)
  have call: "collectItem k s' g ?x acc =
      (case collectRoutes k s' g of
        None \<Rightarrow> None
      | Some (Inl e, t) \<Rightarrow> Some (Inl e, t)
      | Some (Inr subRoutes, t) \<Rightarrow>
          (case appendSubRoutes (t g) ?x subRoutes acc of
             Inl e \<Rightarrow> Some (Inl e, t)
           | Inr routes' \<Rightarrow> Some (Inr routes', t)))" for k acc
    by (rule collectItem_call) (simp_all add: get_prop_def)
  show ?thesis
  proof (induction n rule: less_induct)
    case (less n)
    show ?case
    proof (cases n)
      case 0
      then show ?thesis by simp
    next
      case n: (Suc n1)
      show ?thesis
      proof (cases n1)
        case 0
        with n show ?thesis by simp
      next
        case (Suc n2)
        from less.IH [of n2] n Suc have "collectRoutes n2 s' g = None" by simp
        with n Suc its show ?thesis by (simp add: call)
      qed
    qed
  qed
qed


section \<open>The properties\<close>

text \<open>
  C1. A group on which \<^verbatim>\<open>addHandlers(["get"], "/x", fn)\<close> is the only registration, with
  \<^verbatim>\<open>fn\<close> a bare callback, is expected to accept the registration and to collect one route
  with the handlers \<^verbatim>\<open>[{name: null, respondsTo: "then", callback: fn}]\<close>. The code does
  neither: the registration raises \<open>InvalidHandlerSpecificationError\<close>, because the inner
  loop inspects the callback as it was passed; and a group that holds the handler item
  raises on collection, because the collector does not know the tag \<^verbatim>\<open>"handler"\<close>.
\<close>

theorem bare_callback_is_rejected:
  "addHandlers s this (JArr [JStr ''get'']) (JStr ''/x'') [JFun n src] =
     Inl (InvalidHandlerSpecificationError
            (JStr (''Invalid handler respondsTo: '' @ quoted ''undefined'')))
   \<and> collectRoutes (Suc (Suc k))
        (s(this := Group [] [] []
           [JObj [(''type'', JStr ''handler''), (''methods'', JArr [JStr ''get'']),
                  (''path'', JStr ''/x''),
                  (''handlers'',
                   JArr [JObj [(''name'', JNull), (''respondsTo'', JStr ''then''),
                               (''callback'', JFun n src)]])]])) this =
     Some (Inl (Error (''Bad type: '' @ quoted ''handler'')),
           s(this := Group [] [] []
           [JObj [(''type'', JStr ''handler''), (''methods'', JArr [JStr ''get'']),
                  (''path'', JStr ''/x''),
                  (''handlers'',
                   JArr [JObj [(''name'', JNull), (''respondsTo'', JStr ''then''),
                               (''callback'', JFun n src)]])]]))"
proof
  show "addHandlers s this (JArr [JStr ''get'']) (JStr ''/x'') [JFun n src] =
     Inl (InvalidHandlerSpecificationError
            (JStr (''Invalid handler respondsTo: '' @ quoted ''undefined'')))"
    by (simp add: addHandlers.simps typeof_def indexOf_slash_def check_handlers_non_object
          trim_get del: check_handlers.simps)
  show "collectRoutes (Suc (Suc k))
        (s(this := Group [] [] []
           [JObj [(''type'', JStr ''handler''), (''methods'', JArr [JStr ''get'']),
                  (''path'', JStr ''/x''),
                  (''handlers'',
                   JArr [JObj [(''name'', JNull), (''respondsTo'', JStr ''then''),
                               (''callback'', JFun n src)]])]])) this =
     Some (Inl (Error (''Bad type: '' @ quoted ''handler'')),
           s(this := Group [] [] []
           [JObj [(''type'', JStr ''handler''), (''methods'', JArr [JStr ''get'']),
                  (''path'', JStr ''/x''),
                  (''handlers'',
                   JArr [JObj [(''name'', JNull), (''respondsTo'', JStr ''then''),
                               (''callback'', JFun n src)]])]]))"
    by (simp add: collectItem_handler_item)
qed


text \<open>
  C2. For every group \<open>G\<close> and every route that reaches it during collection, the wrapped
  route has as handlers, in this order: the before list of \<open>G\<close> as stored, the route's own
  handlers, the after list of \<open>G\<close> as stored, and the catchers of \<open>G\<close> in registration
  order, the catcher at index \<open>i\<close> as the object
  \<^verbatim>\<open>{name: "GroupCatcher_<i>", respondsTo: "catch", callback: catcher}\<close>. The first
  conjunct is the wrapping of any route whose handlers can be iterated, the next two
  describe the catcher objects, and the last says that every route a collection of \<open>G\<close>
  returns is such a wrapping.
\<close>

theorem wrap_handler_order:
  "(get_prop route ''handlers'' = Inr h \<and> spread ''route.handlers'' h = Inr hs \<longrightarrow>
      (\<exists>r. appendToRoutes (s G) routes route = Inr (routes @ [r]) \<and>
           get_prop r ''handlers'' =
             Inr (JArr (middlewares_before (s G) @ hs @ middlewares_after (s G) @
                        catcher_handlers (catchers (s G))))))
   \<and> length (catcher_handlers (catchers (s G))) = length (catchers (s G))
   \<and> (\<forall>i. i < length (catchers (s G)) \<longrightarrow>
         catcher_handlers (catchers (s G)) ! i =
           JObj [(''name'', JStr (''GroupCatcher_'' @ decimal i)),
                 (''respondsTo'', JStr ''catch''),
                 (''callback'', catchers (s G) ! i)])
   \<and> (collectRoutes n s G = Some (Inr rs, s') \<and> r' \<in> set rs \<longrightarrow>
        (\<exists>route' h' hs'. appendToRoutes (s G) [] route' = Inr [r'] \<and>
           get_prop route' ''handlers'' = Inr h' \<and>
           spread ''route.handlers'' h' = Inr hs' \<and>
           get_prop r' ''handlers'' =
             Inr (JArr (middlewares_before (s G) @ hs' @ middlewares_after (s G) @
                        catcher_handlers (catchers (s G))))))"
proof (intro conjI impI allI)
  assume "get_prop route ''handlers'' = Inr h \<and> spread ''route.handlers'' h = Inr hs"
  then show "\<exists>r. appendToRoutes (s G) routes route = Inr (routes @ [r]) \<and>
           get_prop r ''handlers'' =
             Inr (JArr (middlewares_before (s G) @ hs @ middlewares_after (s G) @
                        catcher_handlers (catchers (s G))))"
    by (simp add: appendToRoutes_def get_prop_update_same)
next
  show "length (catcher_handlers (catchers (s G))) = length (catchers (s G))"
    by (rule length_catcher_handlers)
next
  fix i assume "i < length (catchers (s G))"
  then show "catcher_handlers (catchers (s G)) ! i =
           JObj [(''name'', JStr (''GroupCatcher_'' @ decimal i)),
                 (''respondsTo'', JStr ''catch''),
                 (''callback'', catchers (s G) ! i)]"
    by (rule nth_catcher_handlers)
next
  assume "collectRoutes n s G = Some (Inr rs, s') \<and> r' \<in> set rs"
  then obtain route' where w: "appendToRoutes (s G) [] route' = Inr [r']"
    using collectRoutes_out by blast
  from wrapped_handlers [of "s G" "[]" route' r'] w
  show "\<exists>route' h' hs'. appendToRoutes (s G) [] route' = Inr [r'] \<and>
           get_prop route' ''handlers'' = Inr h' \<and>
           spread ''route.handlers'' h' = Inr hs' \<and>
           get_prop r' ''handlers'' =
             Inr (JArr (middlewares_before (s G) @ hs' @ middlewares_after (s G) @
                        catcher_handlers (catchers (s G))))"
    by auto
qed

theorem wrap_handler_order_witness:
  "get_prop (JObj [(''type'', JStr ''route''), (''path'', JStr ''/x''),
                   (''handlers'', JArr [JFun 0 ''fn''])]) ''handlers'' = Inr (JArr [JFun 0 ''fn''])
   \<and> spread ''route.handlers'' (JArr [JFun 0 ''fn'']) = Inr [JFun 0 ''fn'']
   \<and> (\<exists>r. appendToRoutes (Group [JFun 5 ''c1'', JFun 2 ''c2''] [JFun 3 ''a''] [JFun 4 ''b'']
                [JObj [(''type'', JStr ''route''), (''path'', JStr ''/x''),
                       (''handlers'', JArr [JFun 0 ''fn''])]]) []
              (JObj [(''type'', JStr ''route''), (''path'', JStr ''/x''),
                     (''handlers'', JArr [JFun 0 ''fn''])]) = Inr [r]
          \<and> get_prop r ''handlers'' =
              Inr (JArr [JFun 4 ''b'', JFun 0 ''fn'', JFun 3 ''a'',
                     JObj [(''name'', JStr ''GroupCatcher_0''), (''respondsTo'', JStr ''catch''),
                           (''callback'', JFun 5 ''c1'')],
                     JObj [(''name'', JStr ''GroupCatcher_1''), (''respondsTo'', JStr ''catch''),
                           (''callback'', JFun 2 ''c2'')]]))
   \<and> collectRoutes (Suc (Suc (Suc 0)))
        ((\<lambda>a. Group_new)(0 := Group [JFun 5 ''c1'', JFun 2 ''c2''] [JFun 3 ''a''] [JFun 4 ''b'']
           [JObj [(''type'', JStr ''route''), (''path'', JStr ''/x''),
                  (''handlers'', JArr [JFun 0 ''fn''])]])) 0 =
       Some (Inr [JObj [(''type'', JStr ''route''), (''path'', JStr ''/x''),
              (''handlers'',
               JArr [JFun 4 ''b'', JFun 0 ''fn'', JFun 3 ''a'',
                     JObj [(''name'', JStr ''GroupCatcher_0''), (''respondsTo'', JStr ''catch''),
                           (''callback'', JFun 5 ''c1'')],
                     JObj [(''name'', JStr ''GroupCatcher_1''), (''respondsTo'', JStr ''catch''),
                           (''callback'', JFun 2 ''c2'')]])]],
         (\<lambda>a. Group_new)(0 := Group [JFun 5 ''c1'', JFun 2 ''c2''] [JFun 3 ''a''] [JFun 4 ''b'']
           [JObj [(''type'', JStr ''route''), (''path'', JStr ''/x''),
                  (''handlers'', JArr [JFun 0 ''fn''])]]))"
proof -
  let ?item = "JObj [(''type'', JStr ''route''), (''path'', JStr ''/x''),
                     (''handlers'', JArr [JFun 0 ''fn''])]"
  let ?G = "Group [JFun 5 ''c1'', JFun 2 ''c2''] [JFun 3 ''a''] [JFun 4 ''b''] [?item]"
  let ?s = "(\<lambda>a::nat. Group_new)(0 := ?G)"
  let ?cs = "[JObj [(''name'', JStr ''GroupCatcher_0''), (''respondsTo'', JStr ''catch''),
                           (''callback'', JFun 5 ''c1'')],
                     JObj [(''name'', JStr ''GroupCatcher_1''), (''respondsTo'', JStr ''catch''),
                           (''callback'', JFun 2 ''c2'')]]"
  let ?r = "JObj [(''type'', JStr ''route''), (''path'', JStr ''/x''),
              (''handlers'', JArr ([JFun 4 ''b'', JFun 0 ''fn'', JFun 3 ''a''] @ ?cs))]"
  have h: "get_prop ?item ''handlers'' = Inr (JArr [JFun 0 ''fn''])"
    by (simp add: get_prop_def)
  have sp: "spread ''route.handlers'' (JArr [JFun 0 ''fn'']) = Inr [JFun 0 ''fn'']"
    by (simp add: spread_def)
  have cs: "catcher_handlers [JFun 5 ''c1'', JFun 2 ''c2''] = ?cs"
    by code_simp
  have c: "collectRoutes (Suc (Suc (Suc 0))) ?s 0 = Some (Inr [?r], ?s)"
    by (simp add: collectItem.simps get_prop_def appendToRoutes_def spread_def own_props_def cs)
  from wrap_handler_order [where route = ?item and h = "JArr [JFun 0 ''fn'']"
      and hs = "[JFun 0 ''fn'']" and s = ?s and G = 0 and routes = "[]" and rs = "[?r]"
      and r' = ?r and n = "Suc (Suc (Suc 0))" and s' = ?s]
    h sp c cs
  show ?thesis by simp
qed


text \<open>
  C3. A parent with before list \<^verbatim>\<open>[pb]\<close> holding, at \<^verbatim>\<open>/child\<close>, a child with before list
  \<^verbatim>\<open>[cb]\<close> and one handler registration at \<^verbatim>\<open>/leaf\<close> is expected to collect the route
  \<^verbatim>\<open>/child/leaf\<close> with the chain \<^verbatim>\<open>[pb, cb, handlerFn]\<close>. Built with the builder (the
  parent at address 0, the child at address 1, both new), the child holds an item tagged
  \<^verbatim>\<open>"handler"\<close>, and the collection of the parent raises.
\<close>

theorem nested_handler_is_not_collected:
  "addHandlers (before (s(0 := Group_new, 1 := Group_new)) 1 cb) 1
     (JArr [JStr ''get'']) (JStr ''/leaf'')
     [JObj [(''name'', JNull), (''respondsTo'', JStr ''then''), (''callback'', handlerFn)]] =
     Inr (s(0 := Group_new,
            1 := Group [] [] [cb]
              [JObj [(''type'', JStr ''handler''), (''methods'', JArr [JStr ''get'']),
                     (''path'', JStr ''/leaf''),
                     (''handlers'',
                      JArr [JObj [(''name'', JNull), (''respondsTo'', JStr ''then''),
                                  (''callback'', handlerFn)]])]]))
   \<and> addGroup
       (before (s(0 := Group_new,
            1 := Group [] [] [cb]
              [JObj [(''type'', JStr ''handler''), (''methods'', JArr [JStr ''get'']),
                     (''path'', JStr ''/leaf''),
                     (''handlers'',
                      JArr [JObj [(''name'', JNull), (''respondsTo'', JStr ''then''),
                                  (''callback'', handlerFn)]])]])) 0 pb)
       0 (JStr ''/child'') (JGroup 1) =
     Inr (s(0 := Group [] [] [pb]
              [JObj [(''type'', JStr ''group''), (''path'', JStr ''/child''),
                     (''group'', JGroup 1)]],
            1 := Group [] [] [cb]
              [JObj [(''type'', JStr ''handler''), (''methods'', JArr [JStr ''get'']),
                     (''path'', JStr ''/leaf''),
                     (''handlers'',
                      JArr [JObj [(''name'', JNull), (''respondsTo'', JStr ''then''),
                                  (''callback'', handlerFn)]])]]))
   \<and> collectRoutes (Suc (Suc (Suc (Suc k))))
       (s(0 := Group [] [] [pb]
              [JObj [(''type'', JStr ''group''), (''path'', JStr ''/child''),
                     (''group'', JGroup 1)]],
          1 := Group [] [] [cb]
              [JObj [(''type'', JStr ''handler''), (''methods'', JArr [JStr ''get'']),
                     (''path'', JStr ''/leaf''),
                     (''handlers'',
                      JArr [JObj [(''name'', JNull), (''respondsTo'', JStr ''then''),
                                  (''callback'', handlerFn)]])]])) 0 =
     Some (Inl (Error (''Bad type: '' @ quoted ''handler'')),
       s(0 := Group [] [] [pb]
              [JObj [(''type'', JStr ''group''), (''path'', JStr ''/child''),
                     (''group'', JGroup 1)]],
          1 := Group [] [] [cb]
              [JObj [(''type'', JStr ''handler''), (''methods'', JArr [JStr ''get'']),
                     (''path'', JStr ''/leaf''),
                     (''handlers'',
                      JArr [JObj [(''name'', JNull), (''respondsTo'', JStr ''then''),
                                  (''callback'', handlerFn)]])]]))"
proof (intro conjI)
  let ?leaf = "JObj [(''type'', JStr ''handler''), (''methods'', JArr [JStr ''get'']),
                     (''path'', JStr ''/leaf''),
                     (''handlers'',
                      JArr [JObj [(''name'', JNull), (''respondsTo'', JStr ''then''),
                                  (''callback'', handlerFn)]])]"
  show "addHandlers (before (s(0 := Group_new, 1 := Group_new)) 1 cb) 1
     (JArr [JStr ''get'']) (JStr ''/leaf'')
     [JObj [(''name'', JNull), (''respondsTo'', JStr ''then''), (''callback'', handlerFn)]] =
     Inr (s(0 := Group_new, 1 := Group [] [] [cb] [?leaf]))"
    by (simp add: addHandlers_handler_object Group_new_def before_def unshift_before_def
          push_item_def modify_def)
  show "addGroup (before (s(0 := Group_new, 1 := Group [] [] [cb] [?leaf])) 0 pb)
       0 (JStr ''/child'') (JGroup 1) =
     Inr (s(0 := Group [] [] [pb]
              [JObj [(''type'', JStr ''group''), (''path'', JStr ''/child''),
                     (''group'', JGroup 1)]],
            1 := Group [] [] [cb] [?leaf]))"
    by (simp add: addGroup.simps instanceof_Group_def eq_null_def indexOf_slash_def
          Group_new_def before_def unshift_before_def push_item_def modify_def fun_upd_twist)
  show "collectRoutes (Suc (Suc (Suc (Suc k))))
       (s(0 := Group [] [] [pb]
              [JObj [(''type'', JStr ''group''), (''path'', JStr ''/child''),
                     (''group'', JGroup 1)]],
          1 := Group [] [] [cb] [?leaf])) 0 =
     Some (Inl (Error (''Bad type: '' @ quoted ''handler'')),
       s(0 := Group [] [] [pb]
              [JObj [(''type'', JStr ''group''), (''path'', JStr ''/child''),
                     (''group'', JGroup 1)]],
          1 := Group [] [] [cb] [?leaf]))"
    by (simp add: collectItem.simps get_prop_def)
qed


text \<open>
  C4. \<^verbatim>\<open>catch(callback)\<close> is expected to append a callable \<^verbatim>\<open>callback\<close> to the catchers
  and to return the group, and to raise \<open>InvalidCatchError\<close> exactly when \<^verbatim>\<open>callback\<close> is
  not callable. The code raises on every argument: \<open>InvalidCatchError\<close> on what is not a
  function, and a \<open>ReferenceError\<close> on a function, since it pushes the unbound identifier
  \<^verbatim>\<open>handler\<close>. No catcher is ever appended.
\<close>

theorem catch_never_appends:
  "catch s this (JFun n src) = Inl (ReferenceError ''handler is not defined'')
   \<and> catch s this cb =
       Inl (if typeof cb = ''function'' then ReferenceError ''handler is not defined''
            else InvalidCatchError (JStr (typeof cb)))"
  by (simp add: catch_def typeof_def resolve_def catch_scope_def throw_new_def Group_errors_def)


text \<open>
  C5. \<^verbatim>\<open>addHandlers([], "/x", fn)\<close> is expected to raise \<^verbatim>\<open>InvalidMethods\<close>,
  \<^verbatim>\<open>addHandlers("get", "nope", fn)\<close> to raise \<^verbatim>\<open>InvalidPath\<close> and
  \<^verbatim>\<open>addHandlers("get", "/x")\<close> to raise \<^verbatim>\<open>InvalidHandlers\<close>. The first two raise a
  \<open>TypeError\<close>, the table of error classes lacking both names; the third raises
  \<open>InvalidHandlerSpecificationError\<close>, the empty rest array having been wrapped into a
  one-element list.
\<close>

theorem addHandlers_error_kinds:
  "addHandlers s this (JArr []) (JStr ''/x'') [JFun n src] =
     Inl (TypeError ''Group.errors.InvalidMethodsError is not a constructor'')
   \<and> addHandlers s this (JStr ''get'') (JStr ''nope'') [JFun n src] =
     Inl (TypeError ''Group.errors.InvalidPathError is not a constructor'')
   \<and> addHandlers s this (JStr ''get'') (JStr ''/x'') [] =
     Inl (InvalidHandlerSpecificationError
            (JStr (''Invalid handler respondsTo: '' @ quoted ''undefined'')))"
proof (intro conjI)
  show "addHandlers s this (JArr []) (JStr ''/x'') [JFun n src] =
     Inl (TypeError ''Group.errors.InvalidMethodsError is not a constructor'')"
    by (simp add: addHandlers.simps typeof_def indexOf_slash_def throw_new_def missing_error_classes)
  show "addHandlers s this (JStr ''get'') (JStr ''nope'') [JFun n src] =
     Inl (TypeError ''Group.errors.InvalidPathError is not a constructor'')"
    by (simp add: addHandlers.simps typeof_def indexOf_slash_def throw_new_def
          missing_error_classes eq_null_def)
  show "addHandlers s this (JStr ''get'') (JStr ''/x'') [] =
     Inl (InvalidHandlerSpecificationError
            (JStr (''Invalid handler respondsTo: '' @ quoted ''undefined'')))"
    by (simp add: addHandlers.simps typeof_def indexOf_slash_def eq_null_def trim_get
          check_handlers_non_object del: check_handlers.simps)
qed


text \<open>
  C6. \<^verbatim>\<open>collectRoutes\<close> is expected never to raise on a tree made with the builder, its
  generic error being reserved to items tagged neither \<^verbatim>\<open>"group"\<close> nor \<^verbatim>\<open>"handler"\<close>.
  In the code, once a registration with \<^verbatim>\<open>addHandlers\<close> has succeeded, no collection of
  the receiver returns routes any more; if a collection of the receiver returned or raised
  before the registration, it raises after it; and if it returned routes before, what it
  raises is the generic error, about the tag \<^verbatim>\<open>"handler"\<close>.
\<close>

theorem registered_handlers_break_collection:
  "(addHandlers s this methods path handlers = Inr s' \<longrightarrow>
      (\<forall>n out s''. collectRoutes n s' this = Some (out, s'') \<longrightarrow> (\<exists>e. out = Inl e)))
   \<and> (addHandlers s this methods path handlers = Inr s' \<and>
        collectRoutes n s this = Some (out, s0) \<longrightarrow>
      (\<exists>e. collectRoutes (Suc n) s' this = Some (Inl e, s')))
   \<and> (addHandlers s this methods path handlers = Inr s' \<and>
        collectRoutes n s this = Some (Inr rs, s0) \<longrightarrow>
      collectRoutes (Suc n) s' this =
        Some (Inl (Error (''Bad type: '' @ quoted ''handler'')), s'))"
proof (intro conjI impI allI)
  fix k res s''
  assume a: "addHandlers s this methods path handlers = Inr s'"
    and run: "collectRoutes k s' this = Some (res, s'')"
  from addHandlers_Inr [OF a] obtain ms hs' where
    s': "s' = modify s this (\<lambda>g. push_item g
             (JObj [(''type'', JStr ''handler''), (''methods'', JArr ms),
                    (''path'', path), (''handlers'', JArr hs')]))"
    by blast
  let ?x = "JObj [(''type'', JStr ''handler''), (''methods'', JArr ms),
                    (''path'', path), (''handlers'', JArr hs')]"
  have its: "items (s' this) = items (s this) @ [?x]"
    by (simp add: s' modify_def push_item_def)
  show "\<exists>e. res = Inl e"
  proof (cases res)
    case (Inl e)
    then show ?thesis by simp
  next
    case (Inr rs)
    with run obtain j where "collectItems j s' this 0 [] = Some (Inr rs, s'')"
      by (cases k) auto
    from loop_reaches [OF this, of "length (items (s this))"] its
    obtain m acc1 acc2 t2 where "collectItem m s' this ?x acc1 = Some (Inr acc2, t2)"
      by auto
    then show ?thesis by (simp add: collectItem_handler_item)
  qed
next
  assume a: "addHandlers s this methods path handlers = Inr s' \<and>
        collectRoutes n s this = Some (out, s0)"
  from a addHandlers_Inr obtain ms hs' where
    s': "s' = modify s this (\<lambda>g. push_item g
             (JObj [(''type'', JStr ''handler''), (''methods'', JArr ms),
                    (''path'', path), (''handlers'', JArr hs')]))"
    by blast
  let ?x = "JObj [(''type'', JStr ''handler''), (''methods'', JArr ms),
                    (''path'', path), (''handlers'', JArr hs')]"
  have its: "items (s' this) = items (s this) @ [?x]"
    by (simp add: s' modify_def push_item_def)
  have last: "collectItems (Suc 0) s' this (length (items (s this))) r =
      Some (Inl (Error (''Bad type: '' @ quoted ''handler'')), s')" for r
    by (simp add: its collectItem_handler_item)
  from a have run: "collectRoutes n s this = Some (out, s0)" by simp
  note after = collect_after_push [OF run, of ?x, folded s']
  show "\<exists>e. collectRoutes (Suc n) s' this = Some (Inl e, s')"
  proof (cases out)
    case (Inl e)
    with after have "collectRoutes n s' this = Some (Inl e, s')" by simp
    from collectRoutes_mono [OF this, of "Suc n"] show ?thesis by simp
  next
    case (Inr r)
    with after have "\<forall>m res. collectItems m s' this (length (items (s this))) r = Some res \<longrightarrow>
        collectRoutes (n + m) s' this = Some res"
      by simp
    from this [rule_format, OF last [of r]] show ?thesis
      by (simp del: collectRoutes.simps collectItems.simps)
  qed
next
  assume a: "addHandlers s this methods path handlers = Inr s' \<and>
        collectRoutes n s this = Some (Inr rs, s0)"
  from a addHandlers_Inr obtain ms hs' where
    s': "s' = modify s this (\<lambda>g. push_item g
             (JObj [(''type'', JStr ''handler''), (''methods'', JArr ms),
                    (''path'', path), (''handlers'', JArr hs')]))"
    by blast
  let ?x = "JObj [(''type'', JStr ''handler''), (''methods'', JArr ms),
                    (''path'', path), (''handlers'', JArr hs')]"
  have its: "items (s' this) = items (s this) @ [?x]"
    by (simp add: s' modify_def push_item_def)
  have last: "collectItems (Suc 0) s' this (length (items (s this))) rs =
      Some (Inl (Error (''Bad type: '' @ quoted ''handler'')), s')"
    by (simp add: its collectItem_handler_item)
  from a have run: "collectRoutes n s this = Some (Inr rs, s0)" by simp
  from collect_after_push [OF run, of ?x, folded s']
  have "\<forall>m res. collectItems m s' this (length (items (s this))) rs = Some res \<longrightarrow>
        collectRoutes (n + m) s' this = Some res"
    by simp
  from this [rule_format, OF last]
  show "collectRoutes (Suc n) s' this =
        Some (Inl (Error (''Bad type: '' @ quoted ''handler'')), s')"
    by (simp del: collectRoutes.simps collectItems.simps)
qed

theorem registered_handlers_break_collection_witness:
  "addHandlers (\<lambda>a. Group_new) 0 (JArr [JStr ''get'']) (JStr ''/x'')
     [JObj [(''name'', JNull), (''respondsTo'', JStr ''then''), (''callback'', JFun 0 ''fn'')]] =
     Inr ((\<lambda>a. Group_new)(0 := Group [] [] []
       [JObj [(''type'', JStr ''handler''), (''methods'', JArr [JStr ''get'']),
              (''path'', JStr ''/x''),
              (''handlers'',
               JArr [JObj [(''name'', JNull), (''respondsTo'', JStr ''then''),
                           (''callback'', JFun 0 ''fn'')]])]]))
   \<and> collectRoutes (Suc (Suc 0)) (\<lambda>a. Group_new) 0 = Some (Inr [], \<lambda>a. Group_new)
   \<and> collectRoutes (Suc (Suc (Suc 0))) ((\<lambda>a. Group_new)(0 := Group [] [] []
       [JObj [(''type'', JStr ''handler''), (''methods'', JArr [JStr ''get'']),
              (''path'', JStr ''/x''),
              (''handlers'',
               JArr [JObj [(''name'', JNull), (''respondsTo'', JStr ''then''),
                           (''callback'', JFun 0 ''fn'')]])]])) 0 =
     Some (Inl (Error (''Bad type: '' @ quoted ''handler'')),
       (\<lambda>a. Group_new)(0 := Group [] [] []
       [JObj [(''type'', JStr ''handler''), (''methods'', JArr [JStr ''get'']),
              (''path'', JStr ''/x''),
              (''handlers'',
               JArr [JObj [(''name'', JNull), (''respondsTo'', JStr ''then''),
                           (''callback'', JFun 0 ''fn'')]])]]))"
proof -
  let ?h = "JObj [(''name'', JNull), (''respondsTo'', JStr ''then''), (''callback'', JFun 0 ''fn'')]"
  let ?s = "\<lambda>a::nat. Group_new"
  let ?s' = "?s(0 := Group [] [] []
       [JObj [(''type'', JStr ''handler''), (''methods'', JArr [JStr ''get'']),
              (''path'', JStr ''/x''), (''handlers'', JArr [?h])]])"
  have reg: "addHandlers ?s 0 (JArr [JStr ''get'']) (JStr ''/x'') [?h] = Inr ?s'"
    by (simp add: addHandlers_handler_object Group_new_def push_item_def modify_def)
  have empty: "collectRoutes (Suc (Suc 0)) ?s 0 = Some (Inr [], ?s)"
    by (simp add: Group_new_def)
  from registered_handlers_break_collection
         [where s = ?s and this = 0 and methods = "JArr [JStr ''get'']" and path = "JStr ''/x''"
            and handlers = "[?h]" and s' = ?s' and n = "Suc (Suc 0)" and rs = "[]" and ?s0.0 = ?s]
       reg empty
  show ?thesis by simp
qed


text \<open>
  C7. \<^verbatim>\<open>before(m)\<close> prepends \<open>m\<close> to the before list and \<^verbatim>\<open>after(m)\<close> appends \<open>m\<close> to the
  after list, leaving the rest of the group and every other group alone. After
  \<^verbatim>\<open>before(m1)\<close> and \<^verbatim>\<open>before(m2)\<close> every route the group returns starts with
  \<open>m2, m1\<close>, followed by the earlier before list; after \<^verbatim>\<open>after(m1)\<close> and
  \<^verbatim>\<open>after(m2)\<close> its after part ends with \<open>m1, m2\<close>, followed only by the catchers of the
  group.
\<close>

theorem before_after_order:
  "before s G m =
     s(G := Group (catchers (s G)) (middlewares_after (s G)) (m # middlewares_before (s G))
             (items (s G)))
   \<and> after s G m =
     s(G := Group (catchers (s G)) (middlewares_after (s G) @ [m]) (middlewares_before (s G))
             (items (s G)))
   \<and> middlewares_before (before (before s G m1) G m2 G) = m2 # m1 # middlewares_before (s G)
   \<and> middlewares_after (after (after s G m1) G m2 G) = middlewares_after (s G) @ [m1, m2]
   \<and> (collectRoutes n (before (before s G m1) G m2) G = Some (Inr rs, s') \<and> r \<in> set rs \<longrightarrow>
        (\<exists>hs. get_prop r ''handlers'' =
                Inr (JArr ([m2, m1] @ middlewares_before (s G) @ hs @ middlewares_after (s G) @
                           catcher_handlers (catchers (s G))))))
   \<and> (collectRoutes n' (after (after s G m1) G m2) G = Some (Inr rs', s'') \<and> r' \<in> set rs' \<longrightarrow>
        (\<exists>hs. get_prop r' ''handlers'' =
                Inr (JArr (middlewares_before (s G) @ hs @ middlewares_after (s G) @ [m1, m2] @
                           catcher_handlers (catchers (s G))))))"
proof (intro conjI impI)
  show "before s G m =
     s(G := Group (catchers (s G)) (middlewares_after (s G)) (m # middlewares_before (s G))
             (items (s G)))"
    by (simp add: before_def modify_def unshift_before_def)
  show "after s G m =
     s(G := Group (catchers (s G)) (middlewares_after (s G) @ [m]) (middlewares_before (s G))
             (items (s G)))"
    by (simp add: after_def modify_def push_after_def)
  show "middlewares_before (before (before s G m1) G m2 G) = m2 # m1 # middlewares_before (s G)"
    by (simp add: before_def modify_def unshift_before_def)
  show "middlewares_after (after (after s G m1) G m2 G) = middlewares_after (s G) @ [m1, m2]"
    by (simp add: after_def modify_def push_after_def)
next
  let ?B = "before (before s G m1) G m2"
  assume "collectRoutes n ?B G = Some (Inr rs, s') \<and> r \<in> set rs"
  then obtain route where "appendToRoutes (?B G) [] route = Inr [r]"
    using collectRoutes_out by blast
  from wrapped_handlers [of "?B G" "[]" route r] this
  show "\<exists>hs. get_prop r ''handlers'' =
                Inr (JArr ([m2, m1] @ middlewares_before (s G) @ hs @ middlewares_after (s G) @
                           catcher_handlers (catchers (s G))))"
    by (auto simp: before_def modify_def unshift_before_def)
next
  let ?A = "after (after s G m1) G m2"
  assume "collectRoutes n' ?A G = Some (Inr rs', s'') \<and> r' \<in> set rs'"
  then obtain route where "appendToRoutes (?A G) [] route = Inr [r']"
    using collectRoutes_out by blast
  from wrapped_handlers [of "?A G" "[]" route r'] this
  show "\<exists>hs. get_prop r' ''handlers'' =
                Inr (JArr (middlewares_before (s G) @ hs @ middlewares_after (s G) @ [m1, m2] @
                           catcher_handlers (catchers (s G))))"
    by (auto simp: after_def modify_def push_after_def)
qed

theorem before_after_order_witness:
  "collectRoutes (Suc (Suc (Suc 0)))
     (before (before ((\<lambda>a. Group_new)(0 := Group [] [JFun 6 ''a0''] [JFun 7 ''b0'']
                        [JObj [(''type'', JStr ''route''), (''path'', JStr ''/x''),
                               (''handlers'', JArr [JFun 0 ''fn''])]]))
                0 (JFun 2 ''m1'')) 0 (JFun 3 ''m2'')) 0 =
     Some (Inr [JObj [(''type'', JStr ''route''), (''path'', JStr ''/x''),
                (''handlers'',
                 JArr [JFun 3 ''m2'', JFun 2 ''m1'', JFun 7 ''b0'', JFun 0 ''fn'',
                       JFun 6 ''a0''])]],
       before (before ((\<lambda>a. Group_new)(0 := Group [] [JFun 6 ''a0''] [JFun 7 ''b0'']
                        [JObj [(''type'', JStr ''route''), (''path'', JStr ''/x''),
                               (''handlers'', JArr [JFun 0 ''fn''])]]))
                0 (JFun 2 ''m1'')) 0 (JFun 3 ''m2''))
   \<and> (\<exists>hs. get_prop
              (JObj [(''type'', JStr ''route''), (''path'', JStr ''/x''),
                     (''handlers'',
                      JArr [JFun 3 ''m2'', JFun 2 ''m1'', JFun 7 ''b0'', JFun 0 ''fn'',
                            JFun 6 ''a0''])]) ''handlers'' =
            Inr (JArr ([JFun 3 ''m2'', JFun 2 ''m1''] @ [JFun 7 ''b0''] @ hs @ [JFun 6 ''a0''])))
   \<and> collectRoutes (Suc (Suc (Suc 0)))
     (after (after ((\<lambda>a. Group_new)(0 := Group [] [JFun 6 ''a0''] [JFun 7 ''b0'']
                        [JObj [(''type'', JStr ''route''), (''path'', JStr ''/x''),
                               (''handlers'', JArr [JFun 0 ''fn''])]]))
                0 (JFun 2 ''m1'')) 0 (JFun 3 ''m2'')) 0 =
     Some (Inr [JObj [(''type'', JStr ''route''), (''path'', JStr ''/x''),
                (''handlers'',
                 JArr [JFun 7 ''b0'', JFun 0 ''fn'', JFun 6 ''a0'', JFun 2 ''m1'',
                       JFun 3 ''m2''])]],
       after (after ((\<lambda>a. Group_new)(0 := Group [] [JFun 6 ''a0''] [JFun 7 ''b0'']
                        [JObj [(''type'', JStr ''route''), (''path'', JStr ''/x''),
                               (''handlers'', JArr [JFun 0 ''fn''])]]))
                0 (JFun 2 ''m1'')) 0 (JFun 3 ''m2''))
   \<and> (\<exists>hs. get_prop
              (JObj [(''type'', JStr ''route''), (''path'', JStr ''/x''),
                     (''handlers'',
                      JArr [JFun 7 ''b0'', JFun 0 ''fn'', JFun 6 ''a0'', JFun 2 ''m1'',
                            JFun 3 ''m2''])]) ''handlers'' =
            Inr (JArr ([JFun 7 ''b0''] @ hs @ [JFun 6 ''a0''] @ [JFun 2 ''m1'', JFun 3 ''m2''])))"
proof -
  let ?s = "(\<lambda>a::nat. Group_new)(0 := Group [] [JFun 6 ''a0''] [JFun 7 ''b0'']
              [JObj [(''type'', JStr ''route''), (''path'', JStr ''/x''),
                     (''handlers'', JArr [JFun 0 ''fn''])]])"
  let ?rb = "JObj [(''type'', JStr ''route''), (''path'', JStr ''/x''),
                (''handlers'',
                 JArr [JFun 3 ''m2'', JFun 2 ''m1'', JFun 7 ''b0'', JFun 0 ''fn'',
                       JFun 6 ''a0''])]"
  let ?ra = "JObj [(''type'', JStr ''route''), (''path'', JStr ''/x''),
                (''handlers'',
                 JArr [JFun 7 ''b0'', JFun 0 ''fn'', JFun 6 ''a0'', JFun 2 ''m1'',
                       JFun 3 ''m2''])]"
  let ?B = "before (before ?s 0 (JFun 2 ''m1'')) 0 (JFun 3 ''m2'')"
  let ?A = "after (after ?s 0 (JFun 2 ''m1'')) 0 (JFun 3 ''m2'')"
  have b: "collectRoutes (Suc (Suc (Suc 0))) ?B 0 = Some (Inr [?rb], ?B)"
    by (simp add: before_def modify_def unshift_before_def collectItem.simps get_prop_def
          appendToRoutes_def spread_def own_props_def catcher_handlers_def)
  have a: "collectRoutes (Suc (Suc (Suc 0))) ?A 0 = Some (Inr [?ra], ?A)"
    by (simp add: after_def modify_def push_after_def collectItem.simps get_prop_def
          appendToRoutes_def spread_def own_props_def catcher_handlers_def)
  note order = before_after_order [where s = ?s and G = 0 and ?m1.0 = "JFun 2 ''m1''"
      and ?m2.0 = "JFun 3 ''m2''" and rs = "[?rb]" and r = ?rb and rs' = "[?ra]" and r' = ?ra
      and n = "Suc (Suc (Suc 0))" and n' = "Suc (Suc (Suc 0))" and s' = ?B and s'' = ?A]
  from order b have
    "\<exists>hs. get_prop ?rb ''handlers'' =
       Inr (JArr ([JFun 3 ''m2'', JFun 2 ''m1''] @ middlewares_before (?s 0) @ hs @
                  middlewares_after (?s 0) @ catcher_handlers (catchers (?s 0))))"
    by (simp del: collectRoutes.simps)
  then have eb: "\<exists>hs. get_prop ?rb ''handlers'' =
       Inr (JArr ([JFun 3 ''m2'', JFun 2 ''m1''] @ [JFun 7 ''b0''] @ hs @ [JFun 6 ''a0'']))"
    by (simp add: catcher_handlers_def)
  from order a have
    "\<exists>hs. get_prop ?ra ''handlers'' =
       Inr (JArr (middlewares_before (?s 0) @ hs @ middlewares_after (?s 0) @
                  [JFun 2 ''m1'', JFun 3 ''m2''] @ catcher_handlers (catchers (?s 0))))"
    by (simp del: collectRoutes.simps)
  then have ea: "\<exists>hs. get_prop ?ra ''handlers'' =
       Inr (JArr ([JFun 7 ''b0''] @ hs @ [JFun 6 ''a0''] @ [JFun 2 ''m1'', JFun 3 ''m2'']))"
    by (simp add: catcher_handlers_def)
  from b eb a ea show ?thesis by (intro conjI)
qed


text \<open>
  C8. \<^verbatim>\<open>addHandlers("get", p, ...hs)\<close> is expected to behave as
  \<^verbatim>\<open>addHandlers(["get"], p, ...hs)\<close>, and absent methods to raise \<^verbatim>\<open>InvalidMethods\<close>.
  On a handler object the array form succeeds while the string form raises
  \<open>InvalidHandlerSpecificationError\<close>; absent methods raise a \<open>TypeError\<close>; and no call
  with a string for \<^verbatim>\<open>methods\<close> succeeds at all.
\<close>

theorem string_method_form_differs:
  "addHandlers s this (JArr [JStr ''get'']) (JStr ''/x'')
     [JObj [(''name'', JNull), (''respondsTo'', JStr ''then''), (''callback'', JFun n src)]] =
     Inr (modify s this (\<lambda>g. push_item g
       (JObj [(''type'', JStr ''handler''), (''methods'', JArr [JStr ''get'']),
              (''path'', JStr ''/x''),
              (''handlers'',
               JArr [JObj [(''name'', JNull), (''respondsTo'', JStr ''then''),
                           (''callback'', JFun n src)]])])))
   \<and> addHandlers s this (JStr ''get'') (JStr ''/x'')
     [JObj [(''name'', JNull), (''respondsTo'', JStr ''then''), (''callback'', JFun n src)]] =
     Inl (InvalidHandlerSpecificationError
            (JStr (''Invalid handler respondsTo: '' @ quoted ''undefined'')))
   \<and> addHandlers s this JUndefined (JStr ''/x'')
     [JObj [(''name'', JNull), (''respondsTo'', JStr ''then''), (''callback'', JFun n src)]] =
     Inl (TypeError ''Group.errors.InvalidMethodsError is not a constructor'')
   \<and> (\<forall>m p hs. \<exists>e. addHandlers s this (JStr m) p hs = Inl e)"
proof (intro conjI allI)
  let ?h = "JObj [(''name'', JNull), (''respondsTo'', JStr ''then''), (''callback'', JFun n src)]"
  show "addHandlers s this (JArr [JStr ''get'']) (JStr ''/x'') [?h] =
     Inr (modify s this (\<lambda>g. push_item g
       (JObj [(''type'', JStr ''handler''), (''methods'', JArr [JStr ''get'']),
              (''path'', JStr ''/x''), (''handlers'', JArr [?h])])))"
    by (simp add: addHandlers_handler_object)
  show "addHandlers s this (JStr ''get'') (JStr ''/x'') [?h] =
     Inl (InvalidHandlerSpecificationError
            (JStr (''Invalid handler respondsTo: '' @ quoted ''undefined'')))"
    by (simp add: addHandlers.simps typeof_def indexOf_slash_def eq_null_def trim_get
          check_handlers_array del: check_handlers.simps)
  show "addHandlers s this JUndefined (JStr ''/x'') [?h] =
     Inl (TypeError ''Group.errors.InvalidMethodsError is not a constructor'')"
    by (simp add: addHandlers.simps typeof_def indexOf_slash_def eq_null_def
          throw_new_def missing_error_classes)
  fix m p hs
  show "\<exists>e. addHandlers s this (JStr m) p hs = Inl e"
    by (rule addHandlers_not_array_fails) (simp add: isArray_def)
qed





text \<open>
  C10. \<^verbatim>\<open>addGroup(group)\<close>, with a group as its only argument, does what
  \<^verbatim>\<open>addGroup(null, group)\<close> does: it is accepted and appends a group item whose path is
  \<^verbatim>\<open>null\<close> and whose group is the reference it was given. Such an item adds no prefix:
  if the receiver returned routes before the call, and the child returns routes in the
  store that the call leaves, then the receiver returns, in that store, its former routes
  followed by one route per route of the child, whose path is the text of that route's
  path (the path itself when it is a string, as every path the collector builds is).
\<close>

theorem addGroup_sole_argument:
  "addGroup s this (JGroup child) JUndefined = addGroup s this JNull (JGroup child)
   \<and> addGroup s this (JGroup child) JUndefined =
       Inr (modify s this (\<lambda>g. push_item g
             (JObj [(''type'', JStr ''group''), (''path'', JNull), (''group'', JGroup child)])))
   \<and> (addGroup s this (JGroup child) JUndefined = Inr s' \<and>
       collectRoutes n s this = Some (Inr rs0, s0) \<and>
       collectRoutes m s' child = Some (Inr subs, s1) \<longrightarrow>
        (\<exists>rs1. collectRoutes (n + Suc m) s' this = Some (Inr (rs0 @ rs1), s') \<and>
           length rs1 = length subs \<and>
           (\<forall>k sp. k < length subs \<and> get_prop (subs ! k) ''path'' = Inr sp \<longrightarrow>
                    get_prop (rs1 ! k) ''path'' = Inr (JStr (to_string sp)))))"
proof (intro conjI impI)
  let ?item = "JObj [(''type'', JStr ''group''), (''path'', JNull), (''group'', JGroup child)]"
  have null: "addGroup s this JNull (JGroup child) = Inr (modify s this (\<lambda>g. push_item g ?item))"
    by (simp add: addGroup.simps [of s this JNull] instanceof_Group_def eq_null_def)
  have sole: "addGroup s this (JGroup child) JUndefined =
      Inr (modify s this (\<lambda>g. push_item g ?item))"
    using null
    by (simp add: addGroup.simps [of s this "JGroup child"] instanceof_Group_def eq_null_def)
  show "addGroup s this (JGroup child) JUndefined = addGroup s this JNull (JGroup child)"
    using null sole by simp
  show "addGroup s this (JGroup child) JUndefined =
      Inr (modify s this (\<lambda>g. push_item g ?item))"
    by (rule sole)
  assume a: "addGroup s this (JGroup child) JUndefined = Inr s' \<and>
       collectRoutes n s this = Some (Inr rs0, s0) \<and>
       collectRoutes m s' child = Some (Inr subs, s1)"
  then have s': "s' = modify s this (\<lambda>g. push_item g ?item)" using sole by simp
  from a have old: "collectRoutes n s this = Some (Inr rs0, s0)"
    and sub: "collectRoutes m s' child = Some (Inr subs, s1)" by simp_all
  from collectRoutes_store [OF sub] have s1: "s1 = s'" .
  have its: "items (s' this) = items (s this) @ [?item]"
    by (simp add: s' modify_def push_item_def)
  from sub have shape:
    "\<forall>sr \<in> set subs. \<exists>ps hs. sr = JObj ps \<and> map_of ps ''handlers'' = Some (JArr hs)"
    using collectRoutes_shape by blast
  have ip: "get_prop ?item ''path'' = Inr JNull"
    by (simp add: get_prop_def)
  from appendSubRoutes_ok [OF shape ip, of "s' this" rs0] obtain rs1 where
    rs1: "appendSubRoutes (s' this) ?item subs rs0 = Inr (rs0 @ rs1)"
      "length rs1 = length subs"
      "\<forall>k < length subs.
          (\<forall>sp. get_prop (subs ! k) ''path'' = Inr sp \<longrightarrow>
             get_prop (rs1 ! k) ''path'' =
               Inr (JStr (to_string (or_else JNull (JStr [])) @ to_string sp)))"
    by blast
  have body: "collectItem m s' this ?item rs0 = Some (Inr (rs0 @ rs1), s')"
    using sub s1 rs1(1)
    by (subst collectItem_call [where sub = child]) (simp_all add: get_prop_def)
  from sub obtain m' where m: "m = Suc m'" by (cases m) auto
  have last: "collectItems (Suc m) s' this (length (items (s this))) rs0 =
      Some (Inr (rs0 @ rs1), s')"
    using body by (simp add: its m)
  from collect_after_push [OF old, of ?item, folded s']
  have "\<forall>k res. collectItems k s' this (length (items (s this))) rs0 = Some res \<longrightarrow>
        collectRoutes (n + k) s' this = Some res"
    by simp
  from this [rule_format, OF last]
  have run: "collectRoutes (n + Suc m) s' this = Some (Inr (rs0 @ rs1), s')" .
  have noprefix: "to_string (or_else JNull (JStr [])) = []"
    by (simp add: or_else_def truthy_def)
  show "\<exists>rs1. collectRoutes (n + Suc m) s' this = Some (Inr (rs0 @ rs1), s') \<and>
           length rs1 = length subs \<and>
           (\<forall>k sp. k < length subs \<and> get_prop (subs ! k) ''path'' = Inr sp \<longrightarrow>
                    get_prop (rs1 ! k) ''path'' = Inr (JStr (to_string sp)))"
    using run rs1(2,3) by (intro exI [of _ rs1]) (auto simp: noprefix)
qed

theorem addGroup_sole_argument_witness:
  "addGroup ((\<lambda>a. Group_new)
        (0 := Group [] [] [JFun 2 ''pb'']
                [JObj [(''type'', JStr ''route''), (''path'', JStr ''/a''),
                       (''handlers'', JArr [JFun 0 ''fa''])]],
         1 := Group [] [] [JFun 3 ''cb'']
                [JObj [(''type'', JStr ''route''), (''path'', JStr ''/leaf''),
                       (''handlers'', JArr [JFun 4 ''fl''])]])) 0 (JGroup 1) JUndefined =
     Inr ((\<lambda>a. Group_new)
        (0 := Group [] [] [JFun 2 ''pb'']
                [JObj [(''type'', JStr ''route''), (''path'', JStr ''/a''),
                       (''handlers'', JArr [JFun 0 ''fa''])],
                 JObj [(''type'', JStr ''group''), (''path'', JNull), (''group'', JGroup 1)]],
         1 := Group [] [] [JFun 3 ''cb'']
                [JObj [(''type'', JStr ''route''), (''path'', JStr ''/leaf''),
                       (''handlers'', JArr [JFun 4 ''fl''])]]))
   \<and> collectRoutes (Suc (Suc (Suc 0))) ((\<lambda>a. Group_new)
        (0 := Group [] [] [JFun 2 ''pb'']
                [JObj [(''type'', JStr ''route''), (''path'', JStr ''/a''),
                       (''handlers'', JArr [JFun 0 ''fa''])]],
         1 := Group [] [] [JFun 3 ''cb'']
                [JObj [(''type'', JStr ''route''), (''path'', JStr ''/leaf''),
                       (''handlers'', JArr [JFun 4 ''fl''])]])) 0 =
     Some (Inr [JObj [(''type'', JStr ''route''), (''path'', JStr ''/a''),
                      (''handlers'', JArr [JFun 2 ''pb'', JFun 0 ''fa''])]],
       (\<lambda>a. Group_new)
        (0 := Group [] [] [JFun 2 ''pb'']
                [JObj [(''type'', JStr ''route''), (''path'', JStr ''/a''),
                       (''handlers'', JArr [JFun 0 ''fa''])]],
         1 := Group [] [] [JFun 3 ''cb'']
                [JObj [(''type'', JStr ''route''), (''path'', JStr ''/leaf''),
                       (''handlers'', JArr [JFun 4 ''fl''])]]))
   \<and> collectRoutes (Suc (Suc (Suc 0))) ((\<lambda>a. Group_new)
        (0 := Group [] [] [JFun 2 ''pb'']
                [JObj [(''type'', JStr ''route''), (''path'', JStr ''/a''),
                       (''handlers'', JArr [JFun 0 ''fa''])],
                 JObj [(''type'', JStr ''group''), (''path'', JNull), (''group'', JGroup 1)]],
         1 := Group [] [] [JFun 3 ''cb'']
                [JObj [(''type'', JStr ''route''), (''path'', JStr ''/leaf''),
                       (''handlers'', JArr [JFun 4 ''fl''])]])) 1 =
     Some (Inr [JObj [(''type'', JStr ''route''), (''path'', JStr ''/leaf''),
                      (''handlers'', JArr [JFun 3 ''cb'', JFun 4 ''fl''])]],
       (\<lambda>a. Group_new)
        (0 := Group [] [] [JFun 2 ''pb'']
                [JObj [(''type'', JStr ''route''), (''path'', JStr ''/a''),
                       (''handlers'', JArr [JFun 0 ''fa''])],
                 JObj [(''type'', JStr ''group''), (''path'', JNull), (''group'', JGroup 1)]],
         1 := Group [] [] [JFun 3 ''cb'']
                [JObj [(''type'', JStr ''route''), (''path'', JStr ''/leaf''),
                       (''handlers'', JArr [JFun 4 ''fl''])]]))
   \<and> (\<exists>rs1. collectRoutes (Suc (Suc (Suc 0)) + Suc (Suc (Suc (Suc 0)))) ((\<lambda>a. Group_new)
        (0 := Group [] [] [JFun 2 ''pb'']
                [JObj [(''type'', JStr ''route''), (''path'', JStr ''/a''),
                       (''handlers'', JArr [JFun 0 ''fa''])],
                 JObj [(''type'', JStr ''group''), (''path'', JNull), (''group'', JGroup 1)]],
         1 := Group [] [] [JFun 3 ''cb'']
                [JObj [(''type'', JStr ''route''), (''path'', JStr ''/leaf''),
                       (''handlers'', JArr [JFun 4 ''fl''])]])) 0 =
         Some (Inr ([JObj [(''type'', JStr ''route''), (''path'', JStr ''/a''),
                      (''handlers'', JArr [JFun 2 ''pb'', JFun 0 ''fa''])]] @ rs1),
           (\<lambda>a. Group_new)
        (0 := Group [] [] [JFun 2 ''pb'']
                [JObj [(''type'', JStr ''route''), (''path'', JStr ''/a''),
                       (''handlers'', JArr [JFun 0 ''fa''])],
                 JObj [(''type'', JStr ''group''), (''path'', JNull), (''group'', JGroup 1)]],
         1 := Group [] [] [JFun 3 ''cb'']
                [JObj [(''type'', JStr ''route''), (''path'', JStr ''/leaf''),
                       (''handlers'', JArr [JFun 4 ''fl''])]]))
       \<and> length rs1 = 1
       \<and> get_prop (rs1 ! 0) ''path'' = Inr (JStr ''/leaf''))"
proof -
  let ?pa = "Group [] [] [JFun 2 ''pb'']
                [JObj [(''type'', JStr ''route''), (''path'', JStr ''/a''),
                       (''handlers'', JArr [JFun 0 ''fa''])]]"
  let ?pa' = "Group [] [] [JFun 2 ''pb'']
                [JObj [(''type'', JStr ''route''), (''path'', JStr ''/a''),
                       (''handlers'', JArr [JFun 0 ''fa''])],
                 JObj [(''type'', JStr ''group''), (''path'', JNull), (''group'', JGroup 1)]]"
  let ?ch = "Group [] [] [JFun 3 ''cb'']
                [JObj [(''type'', JStr ''route''), (''path'', JStr ''/leaf''),
                       (''handlers'', JArr [JFun 4 ''fl''])]]"
  let ?s = "(\<lambda>a::nat. Group_new)(0 := ?pa, 1 := ?ch)"
  let ?s' = "(\<lambda>a::nat. Group_new)(0 := ?pa', 1 := ?ch)"
  let ?rs0 = "[JObj [(''type'', JStr ''route''), (''path'', JStr ''/a''),
                (''handlers'', JArr [JFun 2 ''pb'', JFun 0 ''fa''])]]"
  let ?subs = "[JObj [(''type'', JStr ''route''), (''path'', JStr ''/leaf''),
                (''handlers'', JArr [JFun 3 ''cb'', JFun 4 ''fl''])]]"
  let ?n = "Suc (Suc (Suc 0))"
  have c0: "collectRoutes ?n ?s 0 = Some (Inr ?rs0, ?s)"
    by (simp add: collectItem.simps get_prop_def appendToRoutes_def spread_def own_props_def
          catcher_handlers_def)
  have c1: "collectRoutes ?n ?s' 1 = Some (Inr ?subs, ?s')"
    by (simp add: collectItem.simps get_prop_def appendToRoutes_def spread_def own_props_def
          catcher_handlers_def)
  have p: "get_prop (?subs ! 0) ''path'' = Inr (JStr ''/leaf'')"
    by (simp add: get_prop_def)
  note sole = addGroup_sole_argument [where s = ?s and this = 0 and child = 1 and ?rs0.0 = ?rs0
      and subs = ?subs and s' = ?s' and n = ?n and m = ?n and ?s0.0 = ?s and ?s1.0 = ?s']
  from sole [THEN conjunct2, THEN conjunct1]
  have add: "addGroup ?s 0 (JGroup 1) JUndefined = Inr ?s'"
    by (simp add: push_item_def modify_def fun_upd_twist)
  from sole [THEN conjunct2, THEN conjunct2] c0 c1 add
  obtain rs1 where rs1: "collectRoutes (?n + Suc ?n) ?s' 0 = Some (Inr (?rs0 @ rs1), ?s')"
    "length rs1 = length ?subs"
    "\<forall>k sp. k < length ?subs \<and> get_prop (?subs ! k) ''path'' = Inr sp \<longrightarrow>
                    get_prop (rs1 ! k) ''path'' = Inr (JStr (to_string sp))"
    by blast
  from rs1(3) p have "get_prop (rs1 ! 0) ''path'' = Inr (JStr ''/leaf'')"
    by simp
  with rs1(1,2) c0 c1 add show ?thesis
    by (intro conjI exI [of _ rs1]) (simp_all del: collectRoutes.simps)
qed


end
